theory Spec2Isabelle
  imports Complex_Main "HOL-Library.Log_Nat"
begin

section \<open>JavaScript values\<close>

text \<open>
  A JavaScript number is an IEEE 754 double: \<open>Fin v\<close> is the finite double of value \<open>v\<close>,
  and there are the two infinities and NaN. Every arithmetic operation computes the exact
  result and rounds it to the nearest double, ties to even (\<open>rnd\<close>); a result of magnitude
  \<open>2 ^ 1024\<close> or more after rounding is an infinity, and results below the normal range are
  rounded to a multiple of \<open>2 ^ -1074\<close>. A number literal of a JSON document is the double
  nearest to its decimal value, \<open>rnd\<close> of that value.

  The two zeros are one value. A zero divisor counts as \<open>+0\<close>: the divisors of
  \<open>calculateLinearRegression\<close> (\<open>n\<close>, \<open>ssTot\<close> and \<open>n * sumX2 - sumX * sumX\<close>) are a length, a
  sum of squares and a difference of doubles, none of which is \<open>-0\<close> in JavaScript.
\<close>

datatype jsnum = Fin real | PInf | NInf | NaN

text \<open>\<open>pow2 e\<close> is the power \<open>2 ^ e\<close> for an integer exponent.\<close>

definition pow2 :: "int \<Rightarrow> real" where
  "pow2 e = (if 0 \<le> e then 2 ^ nat e else 1 / 2 ^ nat (- e))"

text \<open>The binary exponent of a non-zero real: the \<open>e\<close> with \<open>2 ^ e \<le> |x| < 2 ^ (e + 1)\<close>.\<close>

definition expo :: "real \<Rightarrow> int" where
  "expo x = (if 1 \<le> \<bar>x\<bar> then bitlen \<lfloor>\<bar>x\<bar>\<rfloor> - 1 else - bitlen (\<lceil>1 / \<bar>x\<bar>\<rceil> - 1))"

text \<open>Rounding to the nearest integer, a tie to the even one.\<close>

definition round_even :: "real \<Rightarrow> int" where
  "round_even y =
     (let f = \<lfloor>y\<rfloor>; d = y - of_int f
      in if d < 1 / 2 then f else if 1 / 2 < d then f + 1 else if even f then f else f + 1)"

text \<open>
  The exponent of the last place of the double nearest to \<open>x\<close>: 53 significant bits, and
  never below the subnormal spacing \<open>2 ^ -1074\<close>.
\<close>

definition quantum :: "real \<Rightarrow> int" where
  "quantum x = max (expo x - 52) (- 1074)"

definition round_to :: "int \<Rightarrow> real \<Rightarrow> real" where
  "round_to e x = of_int (round_even (x / pow2 e)) * pow2 e"

definition finite_or_inf :: "real \<Rightarrow> jsnum" where
  "finite_or_inf v =
     (if 2 ^ 1024 \<le> v then PInf else if v \<le> - (2 ^ 1024) then NInf else Fin v)"

definition rnd :: "real \<Rightarrow> jsnum" where
  "rnd x = (if x = 0 then Fin 0 else finite_or_inf (round_to (quantum x) x))"

text \<open>
  The values a rate or cpm property can hold: JSON \<open>null\<close>, booleans and numbers, and
  \<open>undefined\<close>, which is what reading an absent property gives. String, array and object
  values of these properties are outside the model.
\<close>

datatype scalar = Undefined | Null | Bool bool | Num jsnum

text \<open>The values of \<open>name\<close>, \<open>id\<close> and \<open>chromosome\<close>: a scalar or a string.\<close>

datatype jsval = Prim scalar | Str string

fun js_add :: "jsnum \<Rightarrow> jsnum \<Rightarrow> jsnum" where
  "js_add (Fin a) (Fin b) = rnd (a + b)"
| "js_add NaN _ = NaN"
| "js_add _ NaN = NaN"
| "js_add PInf NInf = NaN"
| "js_add NInf PInf = NaN"
| "js_add PInf _ = PInf"
| "js_add _ PInf = PInf"
| "js_add NInf _ = NInf"
| "js_add _ NInf = NInf"

fun js_neg :: "jsnum \<Rightarrow> jsnum" where
  "js_neg (Fin a) = Fin (- a)"
| "js_neg PInf = NInf"
| "js_neg NInf = PInf"
| "js_neg NaN = NaN"

definition js_sub :: "jsnum \<Rightarrow> jsnum \<Rightarrow> jsnum" where
  "js_sub a b = js_add a (js_neg b)"

text \<open>The sign of an infinite product or quotient: \<open>inf_of True\<close> is Infinity.\<close>

definition inf_of :: "bool \<Rightarrow> jsnum" where
  "inf_of positive = (if positive then PInf else NInf)"

fun js_mul :: "jsnum \<Rightarrow> jsnum \<Rightarrow> jsnum" where
  "js_mul (Fin a) (Fin b) = rnd (a * b)"
| "js_mul NaN _ = NaN"
| "js_mul _ NaN = NaN"
| "js_mul (Fin a) PInf = (if a = 0 then NaN else inf_of (0 < a))"
| "js_mul (Fin a) NInf = (if a = 0 then NaN else inf_of (a < 0))"
| "js_mul PInf (Fin b) = (if b = 0 then NaN else inf_of (0 < b))"
| "js_mul NInf (Fin b) = (if b = 0 then NaN else inf_of (b < 0))"
| "js_mul PInf PInf = PInf"
| "js_mul PInf NInf = NInf"
| "js_mul NInf PInf = NInf"
| "js_mul NInf NInf = PInf"

fun js_div :: "jsnum \<Rightarrow> jsnum \<Rightarrow> jsnum" where
  "js_div (Fin a) (Fin b) =
     (if b = 0 then (if a = 0 then NaN else inf_of (0 < a)) else rnd (a / b))"
| "js_div NaN _ = NaN"
| "js_div _ NaN = NaN"
| "js_div (Fin a) PInf = Fin 0"
| "js_div (Fin a) NInf = Fin 0"
| "js_div PInf (Fin b) = inf_of (0 \<le> b)"
| "js_div NInf (Fin b) = inf_of (b < 0)"
| "js_div PInf PInf = NaN"
| "js_div PInf NInf = NaN"
| "js_div NInf PInf = NaN"
| "js_div NInf NInf = NaN"

text \<open>
  \<open>v ** 2\<close>. ECMAScript leaves the precision of \<open>**\<close> to the implementation; the square is
  taken as correctly rounded, which is what \<open>v * v\<close> gives.
\<close>

fun js_sq :: "jsnum \<Rightarrow> jsnum" where
  "js_sq (Fin a) = rnd (a * a)"
| "js_sq PInf = PInf"
| "js_sq NInf = PInf"
| "js_sq NaN = NaN"

text \<open>\<open>a < b\<close> on numbers: false whenever an operand is NaN.\<close>

fun js_lt :: "jsnum \<Rightarrow> jsnum \<Rightarrow> bool" where
  "js_lt (Fin a) (Fin b) = (a < b)"
| "js_lt NaN _ = False"
| "js_lt _ NaN = False"
| "js_lt NInf NInf = False"
| "js_lt NInf _ = True"
| "js_lt _ NInf = False"
| "js_lt PInf _ = False"
| "js_lt _ PInf = True"

text \<open>ToNumber, applied by \<open>*\<close>, \<open>-\<close> and by \<open>+\<close> when no operand is a string.\<close>

fun to_number :: "scalar \<Rightarrow> jsnum" where
  "to_number Undefined = NaN"
| "to_number Null = Fin 0"
| "to_number (Bool b) = Fin (if b then 1 else 0)"
| "to_number (Num v) = v"

text \<open>ToBoolean: \<open>undefined\<close>, \<open>null\<close>, \<open>false\<close>, \<open>0\<close>, NaN and \<open>""\<close> are falsy.\<close>

fun truthy :: "scalar \<Rightarrow> bool" where
  "truthy Undefined = False"
| "truthy Null = False"
| "truthy (Bool b) = b"
| "truthy (Num (Fin a)) = (a \<noteq> 0)"
| "truthy (Num NaN) = False"
| "truthy (Num _) = True"

fun truthy_val :: "jsval \<Rightarrow> bool" where
  "truthy_val (Prim s) = truthy s"
| "truthy_val (Str s) = (s \<noteq> [])"

text \<open>\<open>a || b\<close> on scalars.\<close>

definition js_or :: "scalar \<Rightarrow> scalar \<Rightarrow> scalar" where
  "js_or a b = (if truthy a then a else b)"

section \<open>Gene records and projected points\<close>

text \<open>
  A gene record is a parsed JSON object. \<open>name\<close>, \<open>ident\<close> (the property \<open>id\<close>) and
  \<open>chromosome\<close> hold \<open>Prim Undefined\<close> when the property is absent. \<open>field g k\<close> is the
  property read \<open>gene[k]\<close> at a computed rate or cpm key, \<open>Undefined\<close> when absent; such a
  key ends in \<open>_rate\<close> or \<open>_cpm\<close>, so it never names one of the other three properties.
\<close>

record gene =
  name :: jsval
  ident :: jsval
  chromosome :: jsval
  field :: "string \<Rightarrow> scalar"

record point =
  pname :: jsval
  modRate :: scalar
  cpm :: scalar
  pid :: jsval

definition regions :: "string list" where
  "regions = [''utr5'', ''utr3'', ''exon'', ''intron'', ''total'']"

definition modTypes :: "string list" where
  "modTypes = [''ai'', ''m6a'', ''either'']"

definition rateKey :: "string \<Rightarrow> string \<Rightarrow> string" where
  "rateKey selectedRegion selectedModType =
     selectedRegion @ ''_'' @ selectedModType @ ''_rate''"

definition cpmKey :: "string \<Rightarrow> string" where
  "cpmKey selectedRegion = selectedRegion @ ''_cpm''"

definition scatterData :: "gene list \<Rightarrow> string \<Rightarrow> string \<Rightarrow> point list" where
  "scatterData geneData selectedRegion selectedModType =
     map (\<lambda>gene. \<lparr>pname = name gene,
                  modRate = js_or (field gene (rateKey selectedRegion selectedModType)) (Num (Fin 0)),
                  cpm = js_or (field gene (cpmKey selectedRegion)) (Num (Fin 0)),
                  pid = ident gene\<rparr>) geneData"

section \<open>Linear regression\<close>

record sum_acc =
  sumX :: jsnum
  sumY :: jsnum
  sumXY :: jsnum
  sumX2 :: jsnum

record regression =
  slope :: jsnum
  intercept :: jsnum
  r2 :: jsnum

text \<open>The body of the first \<open>forEach\<close>; \<open>scale\<close> stands for the literal \<open>100\<close>.\<close>

definition sums_step ::
  "jsnum \<Rightarrow> (point \<Rightarrow> scalar) \<Rightarrow> (point \<Rightarrow> scalar) \<Rightarrow> point \<Rightarrow> sum_acc \<Rightarrow> sum_acc" where
  "sums_step scale xKey yKey p s =
     (let x = js_mul (to_number (xKey p)) scale;
          y = yKey p
      in \<lparr>sumX = js_add (sumX s) x,
          sumY = js_add (sumY s) (to_number y),
          sumXY = js_add (sumXY s) (js_mul x (to_number y)),
          sumX2 = js_add (sumX2 s) (js_mul x x)\<rparr>)"

text \<open>The body of the second \<open>forEach\<close>; the accumulator is \<open>(ssRes, ssTot)\<close>.\<close>

definition ss_step ::
  "jsnum \<Rightarrow> (point \<Rightarrow> scalar) \<Rightarrow> (point \<Rightarrow> scalar) \<Rightarrow> jsnum \<Rightarrow> jsnum \<Rightarrow> jsnum \<Rightarrow>
     point \<Rightarrow> jsnum \<times> jsnum \<Rightarrow> jsnum \<times> jsnum" where
  "ss_step scale xKey yKey slope_v intercept_v yMean p acc =
     (let x = js_mul (to_number (xKey p)) scale;
          y = yKey p;
          yPred = js_add (js_mul slope_v x) intercept_v
      in (js_add (fst acc) (js_sq (js_sub (to_number y) yPred)),
          js_add (snd acc) (js_sq (js_sub (to_number y) yMean))))"

text \<open>
  \<open>calculateLinearRegression\<close> with its literal \<open>100\<close> as the parameter \<open>scale\<close>. The
  property names \<open>xKey\<close> and \<open>yKey\<close> are the accessors of the properties they name.
\<close>

definition linearRegressionScaled ::
  "jsnum \<Rightarrow> point list \<Rightarrow> (point \<Rightarrow> scalar) \<Rightarrow> (point \<Rightarrow> scalar) \<Rightarrow> regression" where
  "linearRegressionScaled scale data xKey yKey =
     (let n = Fin (real (length data));
          s = fold (sums_step scale xKey yKey) data
                \<lparr>sumX = Fin 0, sumY = Fin 0, sumXY = Fin 0, sumX2 = Fin 0\<rparr>;
          slope_v = js_div (js_sub (js_mul n (sumXY s)) (js_mul (sumX s) (sumY s)))
                           (js_sub (js_mul n (sumX2 s)) (js_mul (sumX s) (sumX s)));
          intercept_v = js_div (js_sub (sumY s) (js_mul slope_v (sumX s))) n;
          yMean = js_div (sumY s) n;
          ss = fold (ss_step scale xKey yKey slope_v intercept_v yMean) data (Fin 0, Fin 0);
          r2_v = js_sub (Fin 1) (js_div (fst ss) (snd ss))
      in \<lparr>slope = slope_v, intercept = intercept_v, r2 = r2_v\<rparr>)"

definition calculateLinearRegression ::
  "point list \<Rightarrow> (point \<Rightarrow> scalar) \<Rightarrow> (point \<Rightarrow> scalar) \<Rightarrow> regression" where
  "calculateLinearRegression data xKey yKey = linearRegressionScaled (Fin 100) data xKey yKey"

text \<open>The memoised \<open>regression\<close> of the component.\<close>

definition regression_of :: "point list \<Rightarrow> regression" where
  "regression_of scatter = calculateLinearRegression scatter modRate cpm"

text \<open>
  \<open>Math.min(...vs)\<close> and \<open>Math.max(...vs)\<close>: the scan starts from Infinity (from -Infinity)
  and returns NaN as soon as an argument is NaN.
\<close>

fun math_min_from :: "jsnum \<Rightarrow> jsnum list \<Rightarrow> jsnum" where
  "math_min_from lowest [] = lowest"
| "math_min_from lowest (v # vs) =
     (if v = NaN then NaN else math_min_from (if js_lt v lowest then v else lowest) vs)"

fun math_max_from :: "jsnum \<Rightarrow> jsnum list \<Rightarrow> jsnum" where
  "math_max_from highest [] = highest"
| "math_max_from highest (v # vs) =
     (if v = NaN then NaN else math_max_from (if js_lt highest v then v else highest) vs)"

definition math_min :: "jsnum list \<Rightarrow> jsnum" where
  "math_min vs = math_min_from PInf vs"

definition math_max :: "jsnum list \<Rightarrow> jsnum" where
  "math_max vs = math_max_from NInf vs"

record line_point =
  px :: jsnum
  py :: jsnum

text \<open>\<open>scaled_xs\<close> is \<open>scatterData.map(d => d.modRate * 100)\<close>.\<close>

definition scaled_xs :: "point list \<Rightarrow> jsnum list" where
  "scaled_xs scatter = map (\<lambda>d. js_mul (to_number (modRate d)) (Fin 100)) scatter"

definition regressionLine :: "point list \<Rightarrow> regression \<Rightarrow> line_point list" where
  "regressionLine scatter reg =
     (let minX = math_min (scaled_xs scatter);
          maxX = math_max (scaled_xs scatter)
      in [\<lparr>px = minX, py = js_add (js_mul (slope reg) minX) (intercept reg)\<rparr>,
          \<lparr>px = maxX, py = js_add (js_mul (slope reg) maxX) (intercept reg)\<rparr>])"

section \<open>Gene filter\<close>

datatype js_error = TypeError

text \<open>
  A string is a list of code units below 256 (ASCII and Latin-1); other characters are
  outside the model. \<open>toLowerCase\<close> maps each upper-case letter to its lower-case form and
  leaves every other character as it is; the upper-case letters below 256 are \<open>A\<close>..\<open>Z\<close>,
  \<open>U+00C0\<close>..\<open>U+00D6\<close> and \<open>U+00D8\<close>..\<open>U+00DE\<close>.
\<close>

definition upper_letters :: "char list" where
  "upper_letters = ''ABCDEFGHIJKLMNOPQRSTUVWXYZ'' @
     [CHR 0xC0, CHR 0xC1, CHR 0xC2, CHR 0xC3, CHR 0xC4, CHR 0xC5, CHR 0xC6, CHR 0xC7,
      CHR 0xC8, CHR 0xC9, CHR 0xCA, CHR 0xCB, CHR 0xCC, CHR 0xCD, CHR 0xCE, CHR 0xCF,
      CHR 0xD0, CHR 0xD1, CHR 0xD2, CHR 0xD3, CHR 0xD4, CHR 0xD5, CHR 0xD6, CHR 0xD8,
      CHR 0xD9, CHR 0xDA, CHR 0xDB, CHR 0xDC, CHR 0xDD, CHR 0xDE]"

definition lower_letters :: "char list" where
  "lower_letters = ''abcdefghijklmnopqrstuvwxyz'' @
     [CHR 0xE0, CHR 0xE1, CHR 0xE2, CHR 0xE3, CHR 0xE4, CHR 0xE5, CHR 0xE6, CHR 0xE7,
      CHR 0xE8, CHR 0xE9, CHR 0xEA, CHR 0xEB, CHR 0xEC, CHR 0xED, CHR 0xEE, CHR 0xEF,
      CHR 0xF0, CHR 0xF1, CHR 0xF2, CHR 0xF3, CHR 0xF4, CHR 0xF5, CHR 0xF6, CHR 0xF8,
      CHR 0xF9, CHR 0xFA, CHR 0xFB, CHR 0xFC, CHR 0xFD, CHR 0xFE]"

definition case_pairs :: "(char \<times> char) list" where
  "case_pairs = zip upper_letters lower_letters"

definition lower_char :: "char \<Rightarrow> char" where
  "lower_char c = (case map_of case_pairs c of Some d \<Rightarrow> d | None \<Rightarrow> c)"

definition toLowerCase :: "string \<Rightarrow> string" where
  "toLowerCase s = map lower_char s"

text \<open>\<open>s.includes(t)\<close>: \<open>t\<close> occurs in \<open>s\<close> at some index.\<close>

fun str_includes :: "string \<Rightarrow> string \<Rightarrow> bool" where
  "str_includes [] t = (t = [])"
| "str_includes (c # s) t = (take (length t) (c # s) = t \<or> str_includes s t)"

text \<open>\<open>v.toLowerCase()\<close> on a property value: a TypeError unless the value is a string.\<close>

definition lower_of :: "jsval \<Rightarrow> js_error + string" where
  "lower_of v = (case v of Str s \<Rightarrow> Inr (toLowerCase s) | Prim _ \<Rightarrow> Inl TypeError)"

text \<open>The callback of \<open>geneData.filter\<close>, its result coerced to a boolean.\<close>

definition gene_matches :: "string \<Rightarrow> gene \<Rightarrow> js_error + bool" where
  "gene_matches searchTerm g =
     (case lower_of (name g) of
        Inl e \<Rightarrow> Inl e
      | Inr n \<Rightarrow>
          if str_includes n (toLowerCase searchTerm) then Inr True
          else if \<not> truthy_val (chromosome g) then Inr False
          else (case lower_of (chromosome g) of
                  Inl e \<Rightarrow> Inl e
                | Inr c \<Rightarrow> Inr (str_includes c (toLowerCase searchTerm))))"

text \<open>\<open>Array.prototype.filter\<close> with a callback that may throw: the first throw ends the call.\<close>

fun filter_js :: "('a \<Rightarrow> js_error + bool) \<Rightarrow> 'a list \<Rightarrow> js_error + 'a list" where
  "filter_js p [] = Inr []"
| "filter_js p (g # gs) =
     (case p g of
        Inl e \<Rightarrow> Inl e
      | Inr b \<Rightarrow> (case filter_js p gs of
                    Inl e \<Rightarrow> Inl e
                  | Inr r \<Rightarrow> Inr (if b then g # r else r)))"

definition filteredGenes :: "gene list \<Rightarrow> string \<Rightarrow> js_error + gene list" where
  "filteredGenes geneData searchTerm =
     (if searchTerm = [] then Inr geneData
      else filter_js (gene_matches searchTerm) geneData)"

section \<open>Loading the datasets\<close>

text \<open>
  The outcome of \<open>fetch\<close> is the message of the error it rejects with, or a response;
  \<open>json\<close> is the outcome of \<open>response.json()\<close>: the message of the parse error, or the
  parsed dataset.
\<close>

record response =
  ok :: bool
  json :: "string + gene list"

record fetched =
  fetch_MR01_1 :: "string + response"
  fetch_MR01_2 :: "string + response"

record app_state =
  geneDataMR01_1 :: "gene list"
  geneDataMR01_2 :: "gene list"
  selectedSample :: string
  isLoading :: bool
  loadError :: "string option"

definition initial_state :: app_state where
  "initial_state = \<lparr>geneDataMR01_1 = [], geneDataMR01_2 = [], selectedSample = ''MR01_1'',
                     isLoading = True, loadError = None\<rparr>"

text \<open>One \<open>fetch\<close>, the \<open>ok\<close> test and \<open>response.json()\<close>; \<open>Inl\<close> is the thrown message.\<close>

definition load_one :: "string \<Rightarrow> string + response \<Rightarrow> string + gene list" where
  "load_one sample outcome =
     (case outcome of
        Inl msg \<Rightarrow> Inl msg
      | Inr resp \<Rightarrow> if \<not> ok resp then Inl (''Failed to load '' @ sample @ '' data'')
                    else json resp)"

definition loadData :: "fetched \<Rightarrow> app_state \<Rightarrow> app_state" where
  "loadData env s0 =
     (let s1 = s0\<lparr>isLoading := True\<rparr> in
      case load_one ''MR01_1'' (fetch_MR01_1 env) of
        Inl msg \<Rightarrow> s1\<lparr>loadError := Some msg, isLoading := False\<rparr>
      | Inr data1 \<Rightarrow>
          (let s2 = s1\<lparr>geneDataMR01_1 := data1\<rparr> in
           case load_one ''MR01_2'' (fetch_MR01_2 env) of
             Inl msg \<Rightarrow> s2\<lparr>loadError := Some msg, isLoading := False\<rparr>
           | Inr data2 \<Rightarrow> s2\<lparr>geneDataMR01_2 := data2, isLoading := False\<rparr>))"

definition geneData :: "app_state \<Rightarrow> gene list" where
  "geneData s = (if selectedSample s = ''MR01_1'' then geneDataMR01_1 s else geneDataMR01_2 s)"

section \<open>Reference formulas\<close>

text \<open>
  The formulas of the specification, written over real numbers, with which the source is
  compared. A point set is a list of pairs \<open>(x, y)\<close>, \<open>x\<close> already scaled.
\<close>

definition sum_x :: "(real \<times> real) list \<Rightarrow> real" where
  "sum_x ps = (\<Sum>p\<leftarrow>ps. fst p)"

definition sum_y :: "(real \<times> real) list \<Rightarrow> real" where
  "sum_y ps = (\<Sum>p\<leftarrow>ps. snd p)"

definition sum_xy :: "(real \<times> real) list \<Rightarrow> real" where
  "sum_xy ps = (\<Sum>p\<leftarrow>ps. fst p * snd p)"

definition sum_xx :: "(real \<times> real) list \<Rightarrow> real" where
  "sum_xx ps = (\<Sum>p\<leftarrow>ps. fst p * fst p)"

definition ols_den :: "(real \<times> real) list \<Rightarrow> real" where
  "ols_den ps = real (length ps) * sum_xx ps - sum_x ps * sum_x ps"

definition ols_slope :: "(real \<times> real) list \<Rightarrow> real" where
  "ols_slope ps = (real (length ps) * sum_xy ps - sum_x ps * sum_y ps) / ols_den ps"




text \<open>The real value of a finite number (\<open>0\<close> for the others, which the theorems exclude).\<close>

fun real_of :: "jsnum \<Rightarrow> real" where
  "real_of (Fin a) = a"
| "real_of _ = 0"

text \<open>The point set as pairs of reals, each x multiplied by \<open>c\<close>.\<close>

definition xy_points ::
  "real \<Rightarrow> (point \<Rightarrow> scalar) \<Rightarrow> (point \<Rightarrow> scalar) \<Rightarrow> point list \<Rightarrow> (real \<times> real) list" where
  "xy_points c xKey yKey data =
     map (\<lambda>p. (real_of (to_number (xKey p)) * c, real_of (to_number (yKey p)))) data"

text \<open>
  The same formulas in double arithmetic, every operation rounded and every sum taken from
  left to right, over the pairs \<open>(x, y)\<close> of numbers.
\<close>

definition dsum :: "jsnum list \<Rightarrow> jsnum" where
  "dsum vs = foldl js_add (Fin 0) vs"

definition js_points :: "jsnum \<Rightarrow> point list \<Rightarrow> (jsnum \<times> jsnum) list" where
  "js_points scale data =
     map (\<lambda>d. (js_mul (to_number (modRate d)) scale, to_number (cpm d))) data"

definition fit_slope :: "(jsnum \<times> jsnum) list \<Rightarrow> jsnum" where
  "fit_slope ps =
     js_div (js_sub (js_mul (Fin (real (length ps))) (dsum (map (\<lambda>p. js_mul (fst p) (snd p)) ps)))
                    (js_mul (dsum (map fst ps)) (dsum (map snd ps))))
            (js_sub (js_mul (Fin (real (length ps))) (dsum (map (\<lambda>p. js_mul (fst p) (fst p)) ps)))
                    (js_mul (dsum (map fst ps)) (dsum (map fst ps))))"

definition fit_intercept :: "(jsnum \<times> jsnum) list \<Rightarrow> jsnum" where
  "fit_intercept ps =
     js_div (js_sub (dsum (map snd ps)) (js_mul (fit_slope ps) (dsum (map fst ps))))
            (Fin (real (length ps)))"

definition fit_ss_res :: "(jsnum \<times> jsnum) list \<Rightarrow> jsnum" where
  "fit_ss_res ps =
     dsum (map (\<lambda>p. js_sq (js_sub (snd p) (js_add (js_mul (fit_slope ps) (fst p))
                                                  (fit_intercept ps)))) ps)"

definition fit_ss_tot :: "(jsnum \<times> jsnum) list \<Rightarrow> jsnum" where
  "fit_ss_tot ps =
     dsum (map (\<lambda>p. js_sq (js_sub (snd p) (js_div (dsum (map snd ps))
                                                  (Fin (real (length ps)))))) ps)"

definition fit_r2 :: "(jsnum \<times> jsnum) list \<Rightarrow> jsnum" where
  "fit_r2 ps = js_sub (Fin 1) (js_div (fit_ss_res ps) (fit_ss_tot ps))"

text \<open>
  Point sets on which no operation of the four sums rounds: at most 100 points whose rate
  and cpm are integers of magnitude at most 1000.
\<close>

definition small_int :: "real \<Rightarrow> jsnum \<Rightarrow> bool" where
  "small_int b v = (case v of Fin a \<Rightarrow> a \<in> \<int> \<and> \<bar>a\<bar> \<le> b | _ \<Rightarrow> False)"

definition exact_points :: "point list \<Rightarrow> bool" where
  "exact_points data =
     (length data \<le> 100 \<and>
      list_all (\<lambda>d. small_int 1000 (to_number (modRate d)) \<and>
                    small_int 1000 (to_number (cpm d))) data)"

definition all_identical :: "real list \<Rightarrow> bool" where
  "all_identical vs = list_all (\<lambda>v. v = hd vs) vs"

definition nan_fit :: regression where
  "nan_fit = \<lparr>slope = NaN, intercept = NaN, r2 = NaN\<rparr>"

text \<open>\<open>a <= b\<close> on numbers.\<close>

definition js_le :: "jsnum \<Rightarrow> jsnum \<Rightarrow> bool" where
  "js_le a b = (a \<noteq> NaN \<and> b \<noteq> NaN \<and> \<not> js_lt b a)"

text \<open>
  The specification's match: the field contains the term as a substring under a
  case-insensitive comparison. Two characters are the same up to case when they are equal
  or are the two forms of one letter.
\<close>

definition same_ci :: "char \<Rightarrow> char \<Rightarrow> bool" where
  "same_ci c d = (c = d \<or> (c, d) \<in> set case_pairs \<or> (d, c) \<in> set case_pairs)"

definition equal_ci :: "string \<Rightarrow> string \<Rightarrow> bool" where
  "equal_ci s t = list_all2 same_ci s t"

definition contains_ci :: "string \<Rightarrow> string \<Rightarrow> bool" where
  "contains_ci s t = (\<exists>pre mid post. s = pre @ mid @ post \<and> equal_ci mid t)"

definition matches_spec :: "string \<Rightarrow> gene \<Rightarrow> bool" where
  "matches_spec t g =
     ((\<exists>n. name g = Str n \<and> contains_ci n t) \<or> (\<exists>c. chromosome g = Str c \<and> contains_ci c t))"

fun is_str :: "jsval \<Rightarrow> bool" where
  "is_str (Str _) = True"
| "is_str (Prim _) = False"

text \<open>
  The records the filter can read: a string name, and a chromosome that is a string or
  falsy (absent, \<open>null\<close>, \<open>false\<close>, \<open>0\<close>, NaN, \<open>""\<close>).
\<close>

definition string_fields :: "gene \<Rightarrow> bool" where
  "string_fields g = (is_str (name g) \<and> (is_str (chromosome g) \<or> \<not> truthy_val (chromosome g)))"

section \<open>Example data\<close>

definition no_fields :: "string \<Rightarrow> scalar" where
  "no_fields = (\<lambda>k. Undefined)"

text \<open>The dataset of the end-to-end scenario; its rates are the JSON literals 0.1, 0.2, 0.3.\<close>

definition scenario :: "gene list" where
  "scenario =
     [\<lparr>name = Str ''A'', ident = Prim (Num (Fin 1)), chromosome = Prim Undefined,
       field = no_fields(''utr5_ai_rate'' := Num (rnd (1 / 10)), ''utr5_cpm'' := Num (Fin 10))\<rparr>,
      \<lparr>name = Str ''B'', ident = Prim (Num (Fin 2)), chromosome = Prim Undefined,
       field = no_fields(''utr5_ai_rate'' := Num (rnd (2 / 10)), ''utr5_cpm'' := Num (Fin 20))\<rparr>,
      \<lparr>name = Str ''B2'', ident = Prim (Num (Fin 3)), chromosome = Prim Undefined,
       field = no_fields(''utr5_ai_rate'' := Num (rnd (3 / 10)), ''utr5_cpm'' := Num (Fin 30))\<rparr>]"

definition mk_point :: "real \<Rightarrow> real \<Rightarrow> point" where
  "mk_point rate expression =
     \<lparr>pname = Str ''g'', modRate = Num (Fin rate), cpm = Num (Fin expression), pid = Prim (Num (Fin 0))\<rparr>"

text \<open>The constant-x point set \<open>(5,1), (5,3), (5,9)\<close> of the specification.\<close>

definition constant_x_points :: "point list" where
  "constant_x_points = [mk_point 5 1, mk_point 5 3, mk_point 5 9]"

definition spread_points :: "point list" where
  "spread_points = [mk_point 0 1, mk_point 1 3, mk_point 2 2]"

text \<open>Three points with the rate 0.0007 (a JSON literal) and cpm 1, 2, 3.\<close>

definition tiny_rate_points :: "point list" where
  "tiny_rate_points =
     [(mk_point 0 1)\<lparr>modRate := Num (rnd (7 / 10000))\<rparr>,
      (mk_point 0 2)\<lparr>modRate := Num (rnd (7 / 10000))\<rparr>,
      (mk_point 0 3)\<lparr>modRate := Num (rnd (7 / 10000))\<rparr>]"

text \<open>Two points with the rates 0.5 and 0.500000001 (JSON literals) and cpm 1 and 2.\<close>

definition near_points :: "point list" where
  "near_points = [mk_point (1 / 2) 1,
                  (mk_point 0 2)\<lparr>modRate := Num (rnd (500000001 / 1000000000))\<rparr>]"

text \<open>A record with neither \<open>id\<close> nor \<open>name\<close>.\<close>

definition nameless :: gene where
  "nameless = \<lparr>name = Prim Undefined, ident = Prim Undefined, chromosome = Prim Undefined,
               field = no_fields(''utr5_ai_rate'' := Num (Fin (1 / 2)))\<rparr>"


text \<open>A record with a string name whose chromosome is the number \<open>7\<close>.\<close>

definition numeric_chromosome :: gene where
  "numeric_chromosome = \<lparr>name = Str ''BRCA1'', ident = Prim (Num (Fin 1)),
                         chromosome = Prim (Num (Fin 7)), field = no_fields\<rparr>"

text \<open>A record whose name begins with \<open>U+00C4\<close>, the upper-case form of \<open>U+00E4\<close>.\<close>

definition umlaut_gene :: gene where
  "umlaut_gene = \<lparr>name = Str [CHR 0xC4, CHR ''B''], ident = Prim (Num (Fin 3)),
                  chromosome = Prim Undefined, field = no_fields\<rparr>"

definition brca :: gene where
  "brca = \<lparr>name = Str ''BRCA1'', ident = Prim (Num (Fin 1)), chromosome = Str ''chr17'',
           field = no_fields\<rparr>"

definition tp53 :: gene where
  "tp53 = \<lparr>name = Str ''TP53'', ident = Prim (Num (Fin 2)), chromosome = Prim Undefined,
           field = no_fields\<rparr>"

definition ok_response :: "gene list \<Rightarrow> string + response" where
  "ok_response d = Inr \<lparr>ok = True, json = Inr d\<rparr>"

section \<open>Rounding\<close>

lemmas rnd_eval =
  rnd_def quantum_def expo_def round_to_def round_even_def pow2_def finite_or_inf_def
  compute_bitlen Let_def

lemma rnd_not_NaN: "rnd x \<noteq> NaN"
  by (simp add: rnd_def finite_or_inf_def)

lemma round_even_of_int: "round_even (of_int k) = k"
  by (simp add: round_even_def)

lemma pow2_nonpos: "e \<le> 0 \<Longrightarrow> pow2 e = 1 / 2 ^ nat (- e)"
  by (cases "e = 0") (simp_all add: pow2_def)

text \<open>An integer below \<open>2 ^ 53\<close> in magnitude is a double: rounding leaves it as it is.\<close>

lemma rnd_of_int:
  assumes "\<bar>k\<bar> < 2 ^ 53"
  shows "rnd (of_int k) = Fin (of_int k)"
proof (cases "k = 0")
  case True
  then show ?thesis by (simp add: rnd_def)
next
  case False
  let ?x = "of_int k :: real"
  let ?e = "bitlen \<bar>k\<bar> - 53"
  have pos: "0 < \<bar>k\<bar>" using False by simp
  have one: "1 \<le> \<bar>?x\<bar>" using False by (simp flip: of_int_abs)
  have fl: "\<lfloor>\<bar>?x\<bar>\<rfloor> = \<bar>k\<bar>" by (simp flip: of_int_abs)
  have ex: "expo ?x = bitlen \<bar>k\<bar> - 1" using one by (simp only: expo_def fl if_True)
  have hi: "bitlen \<bar>k\<bar> \<le> 53" using assms by (simp add: bitlen_le_iff_power)
  have lo: "1 \<le> bitlen \<bar>k\<bar>"
    using pos bitlen_eq_zero_iff [of "\<bar>k\<bar>"] bitlen_nonneg [of "\<bar>k\<bar>"] by linarith
  have q: "quantum ?x = ?e" using lo by (simp add: quantum_def ex)
  have e: "?e \<le> 0" using hi by simp
  have p: "pow2 ?e = 1 / 2 ^ nat (- ?e)" using e by (rule pow2_nonpos)
  have "?x / pow2 ?e = of_int (k * 2 ^ nat (- ?e))" by (simp add: p)
  then have "round_even (?x / pow2 ?e) = k * 2 ^ nat (- ?e)"
    by (simp only: round_even_of_int)
  then have r: "round_to ?e ?x = ?x" by (simp add: round_to_def p)
  have "\<bar>?x\<bar> < 2 ^ 53" using assms by (simp flip: of_int_abs add: of_int_less_numeral_power_cancel_iff)
  also have "(2 :: real) ^ 53 < 2 ^ 1024" by simp
  finally have "\<bar>?x\<bar> < 2 ^ 1024" .
  then have "finite_or_inf ?x = Fin ?x" by (simp add: finite_or_inf_def abs_less_iff)
  with False q r show ?thesis by (simp add: rnd_def)
qed

lemma rnd_int: "x \<in> \<int> \<Longrightarrow> \<bar>x\<bar> < 2 ^ 53 \<Longrightarrow> rnd x = Fin x"
proof -
  assume "x \<in> \<int>" and b: "\<bar>x\<bar> < 2 ^ 53"
  then obtain k where k: "x = of_int k" by (auto elim: Ints_cases)
  with b have "\<bar>k\<bar> < 2 ^ 53" by (simp flip: of_int_abs add: of_int_less_numeral_power_cancel_iff)
  then show "rnd x = Fin x" unfolding k by (rule rnd_of_int)
qed

lemma rnd_numeral: "numeral k < (2 :: real) ^ 53 \<Longrightarrow> rnd (numeral k) = Fin (numeral k)"
  by (rule rnd_int) simp_all

lemma rnd_neg_numeral:
  "numeral k < (2 :: real) ^ 53 \<Longrightarrow> rnd (- numeral k) = Fin (- numeral k)"
  by (rule rnd_int) simp_all

lemma rnd_zero_one: "rnd 0 = Fin 0" "rnd 1 = Fin 1"
  by (simp add: rnd_def) (rule rnd_int, simp_all)

lemmas rnd_ints = rnd_numeral rnd_neg_numeral rnd_zero_one

section \<open>Projection\<close>

lemma scatterData_length: "length (scatterData ds r m) = length ds"
  by (simp add: scatterData_def)

lemma scatterData_nth:
  "i < length ds \<Longrightarrow> scatterData ds r m ! i =
     \<lparr>pname = name (ds ! i),
      modRate = js_or (field (ds ! i) (rateKey r m)) (Num (Fin 0)),
      cpm = js_or (field (ds ! i) (cpmKey r)) (Num (Fin 0)),
      pid = ident (ds ! i)\<rparr>"
  by (simp add: scatterData_def)

lemma js_or_number: "v \<noteq> NaN \<Longrightarrow> js_or (Num v) (Num (Fin 0)) = Num v"
  by (cases v) (simp_all add: js_or_def)

lemma falsy_values: "\<not> truthy v \<longleftrightarrow> v \<in> {Undefined, Null, Bool False, Num (Fin 0), Num NaN}"
  by (cases v rule: truthy.cases) auto

text \<open>
  C3. For every dataset, every region of the five region identifiers and every modification
  type of the three modification identifiers, \<open>scatterData\<close> returns one point per record,
  in dataset order: the point at index \<open>i\<close> carries the \<open>id\<close> and the \<open>name\<close> of the record
  at index \<open>i\<close>. Its rate is the record's property \<open><region>_<modType>_rate\<close> and its
  expression the record's property \<open><region>_cpm\<close>, where that property is a number, and
  \<open>0\<close> where the property is absent; for the region \<open>total\<close> these are the \<open>total_*\<close>
  properties. The function is total: no input raises.
\<close>

theorem projection_in_order:
  assumes "r \<in> set regions" and "m \<in> set modTypes"
  shows "length (scatterData ds r m) = length ds \<and>
         (\<forall>i<length ds.
            pid (scatterData ds r m ! i) = ident (ds ! i) \<and>
            pname (scatterData ds r m ! i) = name (ds ! i) \<and>
            (\<forall>v. field (ds ! i) (r @ ''_'' @ m @ ''_rate'') = Num v \<and> v \<noteq> NaN
                   \<longrightarrow> modRate (scatterData ds r m ! i) = Num v) \<and>
            (field (ds ! i) (r @ ''_'' @ m @ ''_rate'') = Undefined
                   \<longrightarrow> modRate (scatterData ds r m ! i) = Num (Fin 0)) \<and>
            (\<forall>v. field (ds ! i) (r @ ''_cpm'') = Num v \<and> v \<noteq> NaN
                   \<longrightarrow> cpm (scatterData ds r m ! i) = Num v) \<and>
            (field (ds ! i) (r @ ''_cpm'') = Undefined
                   \<longrightarrow> cpm (scatterData ds r m ! i) = Num (Fin 0))) \<and>
         r @ ''_'' @ m @ ''_rate'' \<in> set
           [''utr5_ai_rate'', ''utr5_m6a_rate'', ''utr5_either_rate'',
            ''utr3_ai_rate'', ''utr3_m6a_rate'', ''utr3_either_rate'',
            ''exon_ai_rate'', ''exon_m6a_rate'', ''exon_either_rate'',
            ''intron_ai_rate'', ''intron_m6a_rate'', ''intron_either_rate'',
            ''total_ai_rate'', ''total_m6a_rate'', ''total_either_rate''] \<and>
         r @ ''_cpm'' \<in> set [''utr5_cpm'', ''utr3_cpm'', ''exon_cpm'', ''intron_cpm'', ''total_cpm'']"
proof -
  have undef: "js_or Undefined (Num (Fin 0)) = Num (Fin 0)"
    by (simp add: js_or_def)
  have keys: "rateKey r m = r @ ''_'' @ m @ ''_rate''" "cpmKey r = r @ ''_cpm''"
    by (simp_all add: rateKey_def cpmKey_def)
  have points: "\<forall>i<length ds.
            pid (scatterData ds r m ! i) = ident (ds ! i) \<and>
            pname (scatterData ds r m ! i) = name (ds ! i) \<and>
            (\<forall>v. field (ds ! i) (r @ ''_'' @ m @ ''_rate'') = Num v \<and> v \<noteq> NaN
                   \<longrightarrow> modRate (scatterData ds r m ! i) = Num v) \<and>
            (field (ds ! i) (r @ ''_'' @ m @ ''_rate'') = Undefined
                   \<longrightarrow> modRate (scatterData ds r m ! i) = Num (Fin 0)) \<and>
            (\<forall>v. field (ds ! i) (r @ ''_cpm'') = Num v \<and> v \<noteq> NaN
                   \<longrightarrow> cpm (scatterData ds r m ! i) = Num v) \<and>
            (field (ds ! i) (r @ ''_cpm'') = Undefined
                   \<longrightarrow> cpm (scatterData ds r m ! i) = Num (Fin 0))"
    by (simp add: scatterData_nth js_or_number undef keys)
  have r: "r = ''utr5'' \<or> r = ''utr3'' \<or> r = ''exon'' \<or> r = ''intron'' \<or> r = ''total''"
    using assms(1) by (simp add: regions_def)
  have m: "m = ''ai'' \<or> m = ''m6a'' \<or> m = ''either''"
    using assms(2) by (simp add: modTypes_def)
  have rate_key: "r @ ''_'' @ m @ ''_rate'' \<in> set
           [''utr5_ai_rate'', ''utr5_m6a_rate'', ''utr5_either_rate'',
            ''utr3_ai_rate'', ''utr3_m6a_rate'', ''utr3_either_rate'',
            ''exon_ai_rate'', ''exon_m6a_rate'', ''exon_either_rate'',
            ''intron_ai_rate'', ''intron_m6a_rate'', ''intron_either_rate'',
            ''total_ai_rate'', ''total_m6a_rate'', ''total_either_rate'']"
    using r m by auto
  have cpm_key: "r @ ''_cpm'' \<in> set [''utr5_cpm'', ''utr3_cpm'', ''exon_cpm'', ''intron_cpm'', ''total_cpm'']"
    using r by auto
  from points rate_key cpm_key show ?thesis
    by (simp only: scatterData_length simp_thms)
qed

theorem projection_in_order_witness:
  "''utr5'' \<in> set regions \<and> ''ai'' \<in> set modTypes \<and> ''m6a'' \<in> set modTypes \<and>
   field (scenario ! 1) ''utr5_ai_rate'' = Num (rnd (2 / 10)) \<and> rnd (2 / 10) \<noteq> NaN \<and>
   field (scenario ! 1) ''utr5_m6a_rate'' = Undefined \<and>
   field (scenario ! 1) ''utr5_cpm'' = Num (Fin 20) \<and>
   length (scatterData scenario ''utr5'' ''ai'') = 3 \<and>
   pid (scatterData scenario ''utr5'' ''ai'' ! 1) = Prim (Num (Fin 2)) \<and>
   pname (scatterData scenario ''utr5'' ''ai'' ! 1) = Str ''B'' \<and>
   modRate (scatterData scenario ''utr5'' ''ai'' ! 1) = Num (rnd (2 / 10)) \<and>
   cpm (scatterData scenario ''utr5'' ''ai'' ! 1) = Num (Fin 20) \<and>
   modRate (scatterData scenario ''utr5'' ''m6a'' ! 1) = Num (Fin 0)"
proof -
  have r: "''utr5'' \<in> set regions" by (simp add: regions_def)
  have ai: "''ai'' \<in> set modTypes" and m6a: "''m6a'' \<in> set modTypes"
    by (simp_all add: modTypes_def)
  have len: "length scenario = 3" by (simp add: scenario_def)
  have one: "1 < length scenario" using len by simp
  have f: "field (scenario ! 1) ''utr5_ai_rate'' = Num (rnd (2 / 10))"
          "field (scenario ! 1) ''utr5_m6a_rate'' = Undefined"
          "field (scenario ! 1) ''utr5_cpm'' = Num (Fin 20)"
          "ident (scenario ! 1) = Prim (Num (Fin 2))"
          "name (scenario ! 1) = Str ''B''"
    by (simp_all add: scenario_def no_fields_def)
  have nn: "rnd (2 / 10) \<noteq> NaN" by (rule rnd_not_NaN)
  from projection_in_order [OF r ai, of scenario] one f nn len
  have a: "length (scatterData scenario ''utr5'' ''ai'') = 3 \<and>
           pid (scatterData scenario ''utr5'' ''ai'' ! 1) = Prim (Num (Fin 2)) \<and>
           pname (scatterData scenario ''utr5'' ''ai'' ! 1) = Str ''B'' \<and>
           modRate (scatterData scenario ''utr5'' ''ai'' ! 1) = Num (rnd (2 / 10)) \<and>
           cpm (scatterData scenario ''utr5'' ''ai'' ! 1) = Num (Fin 20)"
    by simp
  from projection_in_order [OF r m6a, of scenario] one f
  have b: "modRate (scatterData scenario ''utr5'' ''m6a'' ! 1) = Num (Fin 0)"
    by simp
  from r ai m6a f nn a b show ?thesis by simp
qed



section \<open>Regression\<close>

lemmas regression_unfold =
  regression_of_def calculateLinearRegression_def linearRegressionScaled_def
  sums_step_def ss_step_def js_sub_def Let_def

lemma scenario_rates:
  "js_mul (rnd (1 / 10)) (Fin 100) = Fin 10"
  "js_mul (rnd (1 / 5)) (Fin 100) = Fin 20"
  "js_mul (rnd (3 / 10)) (Fin 100) = Fin 30"
  by (simp_all add: rnd_eval)

lemma scenario_points:
  "scatterData scenario ''utr5'' ''ai'' =
     [\<lparr>pname = Str ''A'', modRate = Num (rnd (1 / 10)), cpm = Num (Fin 10), pid = Prim (Num (Fin 1))\<rparr>,
      \<lparr>pname = Str ''B'', modRate = Num (rnd (2 / 10)), cpm = Num (Fin 20), pid = Prim (Num (Fin 2))\<rparr>,
      \<lparr>pname = Str ''B2'', modRate = Num (rnd (3 / 10)), cpm = Num (Fin 30), pid = Prim (Num (Fin 3))\<rparr>]"
proof -
  have "truthy (Num (rnd (1 / 10)))" "truthy (Num (rnd (2 / 10)))" "truthy (Num (rnd (3 / 10)))"
    by (simp_all add: rnd_eval)
  then show ?thesis
    by (simp add: scenario_def no_fields_def scatterData_def rateKey_def cpmKey_def js_or_def)
qed

text \<open>
  C5. For the three-record dataset with \<open>utr5_ai_rate\<close> 0.1, 0.2, 0.3 and \<open>utr5_cpm\<close>
  10, 20, 30, projecting with region \<open>utr5\<close> and modification \<open>ai\<close> yields the points
  (0.1, 10), (0.2, 20), (0.3, 30), and fitting them, rates scaled by 100, yields exactly
  slope 1, intercept 0 and rSquared 1.
\<close>

theorem scenario_end_to_end:
  "map (\<lambda>p. (modRate p, cpm p)) (scatterData scenario ''utr5'' ''ai'') =
     [(Num (rnd (1 / 10)), Num (Fin 10)), (Num (rnd (2 / 10)), Num (Fin 20)),
      (Num (rnd (3 / 10)), Num (Fin 30))] \<and>
   regression_of (scatterData scenario ''utr5'' ''ai'') =
     \<lparr>slope = Fin 1, intercept = Fin 0, r2 = Fin 1\<rparr>"
proof -
  have "regression_of (scatterData scenario ''utr5'' ''ai'') =
          \<lparr>slope = Fin 1, intercept = Fin 0, r2 = Fin 1\<rparr>"
    unfolding scenario_points
    by (simp add: regression_unfold scenario_rates rnd_ints)
  then show ?thesis by (simp add: scenario_points)
qed

section \<open>Least squares over the reals\<close>

lemma sum_list_sq_dev:
  fixes m :: real
  shows "(\<Sum>x\<leftarrow>xs. (x - m)\<^sup>2) = (\<Sum>x\<leftarrow>xs. x * x) - 2 * m * sum_list xs + real (length xs) * m\<^sup>2"
  by (induction xs) (simp_all add: power2_eq_square algebra_simps)

lemma den_zero_identical:
  fixes xs :: "real list"
  assumes "real (length xs) * (\<Sum>x\<leftarrow>xs. x * x) - sum_list xs * sum_list xs = 0"
  shows "all_identical xs"
proof (cases "xs = []")
  case True
  then show ?thesis by (simp add: all_identical_def)
next
  case False
  let ?n = "real (length xs)"
  let ?m = "sum_list xs / ?n"
  have n: "?n \<noteq> 0" using False by simp
  have "?n * (\<Sum>x\<leftarrow>xs. (x - ?m)\<^sup>2) =
        ?n * (\<Sum>x\<leftarrow>xs. x * x) - sum_list xs * sum_list xs"
    unfolding sum_list_sq_dev using n by (simp add: field_simps power2_eq_square)
  with assms n have zero: "(\<Sum>x\<leftarrow>xs. (x - ?m)\<^sup>2) = 0" by simp
  have "\<forall>v\<in>set (map (\<lambda>x. (x - ?m)\<^sup>2) xs). v = 0"
    using zero by (subst (asm) sum_list_nonneg_eq_0_iff) auto
  then have all: "\<forall>x\<in>set xs. x = ?m" by simp
  moreover have "hd xs \<in> set xs" using False by simp
  ultimately have "\<forall>x\<in>set xs. x = hd xs" by metis
  then show ?thesis by (simp add: all_identical_def list_all_iff)
qed

lemma ols_den_nonzero:
  assumes "\<not> all_identical (map fst ps)"
  shows "ols_den ps \<noteq> 0"
proof
  assume "ols_den ps = 0"
  then have "real (length (map fst ps)) * (\<Sum>x\<leftarrow>map fst ps. x * x)
             - sum_list (map fst ps) * sum_list (map fst ps) = 0"
    by (simp add: ols_den_def sum_xx_def sum_x_def comp_def)
  then have "all_identical (map fst ps)" by (rule den_zero_identical)
  with assms show False by simp
qed


lemma constant_x_sums:
  "\<forall>p\<in>set ps. fst p = k \<Longrightarrow>
     sum_x ps = real (length ps) * k \<and> sum_xx ps = real (length ps) * (k * k) \<and>
     sum_xy ps = k * sum_y ps"
  by (induction ps) (simp_all add: sum_x_def sum_xx_def sum_xy_def sum_y_def algebra_simps)










section \<open>The fit in double arithmetic\<close>

lemma js_add_NaN_right: "js_add v NaN = NaN"
  by (cases v) simp_all

lemma js_mul_NaN_right: "js_mul v NaN = NaN"
  by (cases v) simp_all

lemma js_sub_NaN_right: "js_sub v NaN = NaN"
  by (simp add: js_sub_def js_add_NaN_right)

lemma js_sub_Fin: "js_sub (Fin a) (Fin b) = rnd (a - b)"
  by (simp add: js_sub_def)

lemma fold_sums_split:
  "fold (sums_step c modRate cpm) data s =
     \<lparr>sumX = foldl js_add (sumX s) (map fst (js_points c data)),
      sumY = foldl js_add (sumY s) (map snd (js_points c data)),
      sumXY = foldl js_add (sumXY s) (map (\<lambda>p. js_mul (fst p) (snd p)) (js_points c data)),
      sumX2 = foldl js_add (sumX2 s) (map (\<lambda>p. js_mul (fst p) (fst p)) (js_points c data))\<rparr>"
proof (induction data arbitrary: s)
  case Nil
  show ?case by (simp add: js_points_def)
next
  case (Cons d data)
  have pts: "js_points c (d # data) =
          (js_mul (to_number (modRate d)) c, to_number (cpm d)) # js_points c data"
    by (simp add: js_points_def)
  have step: "sums_step c modRate cpm d s =
      \<lparr>sumX = js_add (sumX s) (js_mul (to_number (modRate d)) c),
       sumY = js_add (sumY s) (to_number (cpm d)),
       sumXY = js_add (sumXY s) (js_mul (js_mul (to_number (modRate d)) c) (to_number (cpm d))),
       sumX2 = js_add (sumX2 s) (js_mul (js_mul (to_number (modRate d)) c)
                                        (js_mul (to_number (modRate d)) c))\<rparr>"
    by (simp add: sums_step_def Let_def)
  show ?case
    by (simp add: Cons.IH step pts)
qed

lemma fold_ss_split:
  "fold (ss_step c modRate cpm sl ic ym) data acc =
     (foldl js_add (fst acc)
        (map (\<lambda>p. js_sq (js_sub (snd p) (js_add (js_mul sl (fst p)) ic))) (js_points c data)),
      foldl js_add (snd acc)
        (map (\<lambda>p. js_sq (js_sub (snd p) ym)) (js_points c data)))"
proof (induction data arbitrary: acc)
  case Nil
  show ?case by (simp add: js_points_def)
next
  case (Cons d data)
  have pts: "js_points c (d # data) =
          (js_mul (to_number (modRate d)) c, to_number (cpm d)) # js_points c data"
    by (simp add: js_points_def)
  have step: "ss_step c modRate cpm sl ic ym d acc =
      (js_add (fst acc) (js_sq (js_sub (to_number (cpm d))
                 (js_add (js_mul sl (js_mul (to_number (modRate d)) c)) ic))),
       js_add (snd acc) (js_sq (js_sub (to_number (cpm d)) ym)))"
    by (simp add: ss_step_def Let_def)
  show ?case
    by (simp add: Cons.IH step pts)
qed

lemma regression_formulas:
  "linearRegressionScaled c data modRate cpm =
     \<lparr>slope = fit_slope (js_points c data),
      intercept = fit_intercept (js_points c data),
      r2 = fit_r2 (js_points c data)\<rparr>"
proof -
  have len: "length (js_points c data) = length data" by (simp add: js_points_def)
  show ?thesis
    unfolding linearRegressionScaled_def Let_def fold_sums_split fold_ss_split
    by (simp add: fit_slope_def fit_intercept_def fit_r2_def fit_ss_res_def fit_ss_tot_def
        dsum_def len)
qed

section \<open>Point sets summed without rounding\<close>

lemma abs_mult_le:
  fixes a b :: real
  assumes "\<bar>a\<bar> \<le> A" and "\<bar>b\<bar> \<le> B"
  shows "\<bar>a * b\<bar> \<le> A * B"
proof -
  have "\<bar>a\<bar> * \<bar>b\<bar> \<le> A * B"
    using assms by (intro mult_mono) simp_all
  then show ?thesis by (simp add: abs_mult)
qed

lemma sum_list_int_bound:
  fixes vs :: "real list"
  assumes "\<forall>v\<in>set vs. v \<in> \<int> \<and> \<bar>v\<bar> \<le> b"
  shows "sum_list vs \<in> \<int> \<and> \<bar>sum_list vs\<bar> \<le> real (length vs) * b"
  using assms
proof (induction vs)
  case Nil
  show ?case by simp
next
  case (Cons v vs)
  then have v: "v \<in> \<int>" "\<bar>v\<bar> \<le> b"
    and ih: "sum_list vs \<in> \<int>" "\<bar>sum_list vs\<bar> \<le> real (length vs) * b"
    by simp_all
  have "\<bar>v + sum_list vs\<bar> \<le> b + real (length vs) * b"
    using v(2) ih(2) by linarith
  then show ?case using v(1) ih(1) by (simp add: algebra_simps)
qed

lemma foldl_add_exact:
  assumes "\<forall>v\<in>set vs. v \<in> \<int> \<and> \<bar>v\<bar> \<le> b"
    and "a \<in> \<int>" and "\<bar>a\<bar> + real (length vs) * b < 2 ^ 53"
  shows "foldl js_add (Fin a) (map Fin vs) = Fin (a + sum_list vs)"
  using assms
proof (induction vs arbitrary: a)
  case Nil
  show ?case by simp
next
  case (Cons v vs)
  then have v: "v \<in> \<int>" "\<bar>v\<bar> \<le> b" and rest: "\<forall>w\<in>set vs. w \<in> \<int> \<and> \<bar>w\<bar> \<le> b"
    by simp_all
  have b: "0 \<le> b" using v(2) by linarith
  have room: "\<bar>a\<bar> + b + real (length vs) * b < 2 ^ 53"
    using Cons.prems(3) by (simp add: algebra_simps)
  have "0 \<le> real (length vs) * b" using b by simp
  with room v(2) have small: "\<bar>a + v\<bar> < 2 ^ 53" by linarith
  have int: "a + v \<in> \<int>" using Cons.prems(2) v(1) by simp
  have step: "js_add (Fin a) (Fin v) = Fin (a + v)"
    using int small by (simp add: rnd_int)
  have "\<bar>a + v\<bar> + real (length vs) * b < 2 ^ 53"
    using room v(2) by linarith
  from Cons.IH [OF rest int this]
  have ih: "foldl js_add (Fin (a + v)) (map Fin vs) = Fin (a + v + sum_list vs)" .
  have "foldl js_add (Fin a) (map Fin (v # vs)) =
        foldl js_add (js_add (Fin a) (Fin v)) (map Fin vs)"
    by (simp only: list.map foldl_Cons)
  also have "\<dots> = Fin (a + v + sum_list vs)"
    by (simp only: step ih)
  finally show ?case by (simp add: add.assoc)
qed

lemma dsum_exact:
  assumes "\<forall>v\<in>set vs. v \<in> \<int> \<and> \<bar>v\<bar> \<le> b" and "real (length vs) * b < 2 ^ 53"
  shows "dsum (map Fin vs) = Fin (sum_list vs)"
  using foldl_add_exact [OF assms(1), of 0] assms(2) by (simp add: dsum_def)

lemma small_int_Fin:
  assumes "small_int b v"
  obtains a where "v = Fin a" and "a \<in> \<int>" and "\<bar>a\<bar> \<le> b"
  using assms by (cases v) (simp_all add: small_int_def)

lemma exact_point:
  assumes "small_int 1000 (to_number (modRate d))" and "small_int 1000 (to_number (cpm d))"
    and "c \<in> \<int>" and "\<bar>c\<bar> \<le> 100"
  shows "js_mul (to_number (modRate d)) (Fin c) = Fin (real_of (to_number (modRate d)) * c) \<and>
         to_number (cpm d) = Fin (real_of (to_number (cpm d))) \<and>
         real_of (to_number (modRate d)) * c \<in> \<int> \<and>
         \<bar>real_of (to_number (modRate d)) * c\<bar> \<le> 100000 \<and>
         real_of (to_number (cpm d)) \<in> \<int> \<and> \<bar>real_of (to_number (cpm d))\<bar> \<le> 1000"
proof -
  from assms(1) obtain a where a: "to_number (modRate d) = Fin a" "a \<in> \<int>" "\<bar>a\<bar> \<le> 1000"
    by (rule small_int_Fin)
  from assms(2) obtain y where y: "to_number (cpm d) = Fin y" "y \<in> \<int>" "\<bar>y\<bar> \<le> 1000"
    by (rule small_int_Fin)
  have int: "a * c \<in> \<int>" using a(2) assms(3) by simp
  have "\<bar>a * c\<bar> \<le> 1000 * 100" using a(3) assms(4) by (rule abs_mult_le)
  then have bound: "\<bar>a * c\<bar> \<le> 100000" by simp
  then have "\<bar>a * c\<bar> < 2 ^ 53" by simp
  with int have "rnd (a * c) = Fin (a * c)" by (rule rnd_int)
  with a y int bound show ?thesis by simp
qed

lemma exact_js_points:
  assumes "exact_points data" and "c \<in> \<int>" and "\<bar>c\<bar> \<le> 100"
  shows "js_points (Fin c) data =
           map (\<lambda>p. (Fin (fst p), Fin (snd p))) (xy_points c modRate cpm data)"
    and "\<forall>p\<in>set (xy_points c modRate cpm data).
           fst p \<in> \<int> \<and> \<bar>fst p\<bar> \<le> 100000 \<and> snd p \<in> \<int> \<and> \<bar>snd p\<bar> \<le> 1000"
proof -
  have each: "\<forall>d\<in>set data.
      js_mul (to_number (modRate d)) (Fin c) = Fin (real_of (to_number (modRate d)) * c) \<and>
      to_number (cpm d) = Fin (real_of (to_number (cpm d))) \<and>
      real_of (to_number (modRate d)) * c \<in> \<int> \<and>
      \<bar>real_of (to_number (modRate d)) * c\<bar> \<le> 100000 \<and>
      real_of (to_number (cpm d)) \<in> \<int> \<and> \<bar>real_of (to_number (cpm d))\<bar> \<le> 1000"
  proof
    fix d assume "d \<in> set data"
    with assms(1) have "small_int 1000 (to_number (modRate d))"
      and "small_int 1000 (to_number (cpm d))"
      by (simp_all add: exact_points_def list_all_iff)
    then show "js_mul (to_number (modRate d)) (Fin c) = Fin (real_of (to_number (modRate d)) * c) \<and>
      to_number (cpm d) = Fin (real_of (to_number (cpm d))) \<and>
      real_of (to_number (modRate d)) * c \<in> \<int> \<and>
      \<bar>real_of (to_number (modRate d)) * c\<bar> \<le> 100000 \<and>
      real_of (to_number (cpm d)) \<in> \<int> \<and> \<bar>real_of (to_number (cpm d))\<bar> \<le> 1000"
      using assms(2,3) by (rule exact_point)
  qed
  show "js_points (Fin c) data =
           map (\<lambda>p. (Fin (fst p), Fin (snd p))) (xy_points c modRate cpm data)"
    using each by (simp add: js_points_def xy_points_def)
  show "\<forall>p\<in>set (xy_points c modRate cpm data).
           fst p \<in> \<int> \<and> \<bar>fst p\<bar> \<le> 100000 \<and> snd p \<in> \<int> \<and> \<bar>snd p\<bar> \<le> 1000"
    using each by (simp add: xy_points_def)
qed

lemma xy_points_length: "length (xy_points c xKey yKey data) = length data"
  by (simp add: xy_points_def)

lemma exact_sums:
  assumes "exact_points data" and "c \<in> \<int>" and "\<bar>c\<bar> \<le> 100"
  shows "dsum (map fst (js_points (Fin c) data)) = Fin (sum_x (xy_points c modRate cpm data))"
    and "dsum (map snd (js_points (Fin c) data)) = Fin (sum_y (xy_points c modRate cpm data))"
    and "dsum (map (\<lambda>p. js_mul (fst p) (snd p)) (js_points (Fin c) data)) =
           Fin (sum_xy (xy_points c modRate cpm data))"
    and "dsum (map (\<lambda>p. js_mul (fst p) (fst p)) (js_points (Fin c) data)) =
           Fin (sum_xx (xy_points c modRate cpm data))"
    and "sum_x (xy_points c modRate cpm data) \<in> \<int>"
    and "\<bar>sum_x (xy_points c modRate cpm data)\<bar> \<le> 10000000"
    and "sum_y (xy_points c modRate cpm data) \<in> \<int>"
    and "\<bar>sum_y (xy_points c modRate cpm data)\<bar> \<le> 100000"
    and "sum_xy (xy_points c modRate cpm data) \<in> \<int>"
    and "\<bar>sum_xy (xy_points c modRate cpm data)\<bar> \<le> 10000000000"
    and "sum_xx (xy_points c modRate cpm data) \<in> \<int>"
    and "\<bar>sum_xx (xy_points c modRate cpm data)\<bar> \<le> 1000000000000"
proof -
  let ?ps = "xy_points c modRate cpm data"
  let ?jp = "js_points (Fin c) data"
  have jp: "?jp = map (\<lambda>p. (Fin (fst p), Fin (snd p))) ?ps"
    and small: "\<forall>p\<in>set ?ps. fst p \<in> \<int> \<and> \<bar>fst p\<bar> \<le> 100000 \<and> snd p \<in> \<int> \<and> \<bar>snd p\<bar> \<le> 1000"
    using assms by (rule exact_js_points)+
  have len: "real (length ?ps) \<le> 100"
    using assms(1) by (simp add: exact_points_def xy_points_length)
  have n0: "0 \<le> real (length ?ps)" by simp

  have xs: "\<forall>v\<in>set (map fst ?ps). v \<in> \<int> \<and> \<bar>v\<bar> \<le> 100000" using small by simp
  have ys: "\<forall>v\<in>set (map snd ?ps). v \<in> \<int> \<and> \<bar>v\<bar> \<le> 1000" using small by simp
  have xys: "\<forall>v\<in>set (map (\<lambda>p. fst p * snd p) ?ps). v \<in> \<int> \<and> \<bar>v\<bar> \<le> 100000000"
  proof
    fix v assume "v \<in> set (map (\<lambda>p. fst p * snd p) ?ps)"
    then obtain p where p: "p \<in> set ?ps" and v: "v = fst p * snd p" by auto
    from small p have "\<bar>fst p\<bar> \<le> 100000" "\<bar>snd p\<bar> \<le> 1000" by simp_all
    then have "\<bar>fst p * snd p\<bar> \<le> 100000 * 1000" by (rule abs_mult_le)
    with small p v show "v \<in> \<int> \<and> \<bar>v\<bar> \<le> 100000000" by simp
  qed
  have xxs: "\<forall>v\<in>set (map (\<lambda>p. fst p * fst p) ?ps). v \<in> \<int> \<and> \<bar>v\<bar> \<le> 10000000000"
  proof
    fix v assume "v \<in> set (map (\<lambda>p. fst p * fst p) ?ps)"
    then obtain p where p: "p \<in> set ?ps" and v: "v = fst p * fst p" by auto
    from small p have a: "\<bar>fst p\<bar> \<le> 100000" by simp
    from a a have "\<bar>fst p * fst p\<bar> \<le> 100000 * 100000" by (rule abs_mult_le)
    with small p v show "v \<in> \<int> \<and> \<bar>v\<bar> \<le> 10000000000" by simp
  qed

  have l1: "real (length (map fst ?ps)) * 100000 \<le> 10000000" using len by simp
  have l2: "real (length (map snd ?ps)) * 1000 \<le> 100000" using len by simp
  have l3: "real (length (map (\<lambda>p. fst p * snd p) ?ps)) * 100000000 \<le> 10000000000"
    using len by simp
  have l4: "real (length (map (\<lambda>p. fst p * fst p) ?ps)) * 10000000000 \<le> 1000000000000"
    using len by simp

  have mx: "map fst ?jp = map Fin (map fst ?ps)" by (simp add: jp comp_def)
  have my: "map snd ?jp = map Fin (map snd ?ps)" by (simp add: jp comp_def)
  have mxy: "map (\<lambda>p. js_mul (fst p) (snd p)) ?jp = map Fin (map (\<lambda>p. fst p * snd p) ?ps)"
  proof -
    have "rnd (fst p * snd p) = Fin (fst p * snd p)" if "p \<in> set ?ps" for p
    proof (rule rnd_int)
      from xys that have "fst p * snd p \<in> \<int> \<and> \<bar>fst p * snd p\<bar> \<le> 100000000" by simp
      then show "fst p * snd p \<in> \<int>" and "\<bar>fst p * snd p\<bar> < 2 ^ 53" by simp_all
    qed
    then show ?thesis by (simp add: jp comp_def)
  qed
  have mxx: "map (\<lambda>p. js_mul (fst p) (fst p)) ?jp = map Fin (map (\<lambda>p. fst p * fst p) ?ps)"
  proof -
    have "rnd (fst p * fst p) = Fin (fst p * fst p)" if "p \<in> set ?ps" for p
    proof (rule rnd_int)
      from xxs that have "fst p * fst p \<in> \<int> \<and> \<bar>fst p * fst p\<bar> \<le> 10000000000" by simp
      then show "fst p * fst p \<in> \<int>" and "\<bar>fst p * fst p\<bar> < 2 ^ 53" by simp_all
    qed
    then show ?thesis by (simp add: jp comp_def)
  qed

  have b1: "real (length (map fst ?ps)) * 100000 < 2 ^ 53" using l1 by simp
  have b2: "real (length (map snd ?ps)) * 1000 < 2 ^ 53" using l2 by simp
  have b3: "real (length (map (\<lambda>p. fst p * snd p) ?ps)) * 100000000 < 2 ^ 53"
    using l3 by simp
  have b4: "real (length (map (\<lambda>p. fst p * fst p) ?ps)) * 10000000000 < 2 ^ 53"
    using l4 by simp
  show "dsum (map fst ?jp) = Fin (sum_x ?ps)"
    unfolding mx sum_x_def using xs b1 by (rule dsum_exact)
  show "dsum (map snd ?jp) = Fin (sum_y ?ps)"
    unfolding my sum_y_def using ys b2 by (rule dsum_exact)
  show "dsum (map (\<lambda>p. js_mul (fst p) (snd p)) ?jp) = Fin (sum_xy ?ps)"
    unfolding mxy sum_xy_def using xys b3 by (rule dsum_exact)
  show "dsum (map (\<lambda>p. js_mul (fst p) (fst p)) ?jp) = Fin (sum_xx ?ps)"
    unfolding mxx sum_xx_def using xxs b4 by (rule dsum_exact)

  from sum_list_int_bound [OF xs] l1
  show "sum_x ?ps \<in> \<int>" and "\<bar>sum_x ?ps\<bar> \<le> 10000000"
    unfolding sum_x_def by simp_all
  from sum_list_int_bound [OF ys] l2
  show "sum_y ?ps \<in> \<int>" and "\<bar>sum_y ?ps\<bar> \<le> 100000"
    unfolding sum_y_def by simp_all
  from sum_list_int_bound [OF xys] l3
  show "sum_xy ?ps \<in> \<int>" and "\<bar>sum_xy ?ps\<bar> \<le> 10000000000"
    unfolding sum_xy_def by simp_all
  from sum_list_int_bound [OF xxs] l4
  show "sum_xx ?ps \<in> \<int>" and "\<bar>sum_xx ?ps\<bar> \<le> 1000000000000"
    unfolding sum_xx_def by simp_all
qed

lemma exact_numerator_denominator:
  assumes "exact_points data" and "c \<in> \<int>" and "\<bar>c\<bar> \<le> 100"
  shows "fit_slope (js_points (Fin c) data) =
           js_div (Fin (real (length data) * sum_xy (xy_points c modRate cpm data)
                        - sum_x (xy_points c modRate cpm data) * sum_y (xy_points c modRate cpm data)))
                  (Fin (ols_den (xy_points c modRate cpm data)))"
proof -
  let ?ps = "xy_points c modRate cpm data"
  let ?n = "real (length data)"
  note s = exact_sums [OF assms]
  have len: "length (js_points (Fin c) data) = length data" by (simp add: js_points_def)
  have n: "?n \<in> \<int>" "\<bar>?n\<bar> \<le> 100"
    using assms(1) by (simp_all add: exact_points_def)
  have a1: "\<bar>?n * sum_xy ?ps\<bar> \<le> 100 * 10000000000" using n(2) s(10) by (rule abs_mult_le)
  have a2: "\<bar>sum_x ?ps * sum_y ?ps\<bar> \<le> 10000000 * 100000" using s(6) s(8) by (rule abs_mult_le)
  have a3: "\<bar>?n * sum_xx ?ps\<bar> \<le> 100 * 1000000000000" using n(2) s(12) by (rule abs_mult_le)
  have a4: "\<bar>sum_x ?ps * sum_x ?ps\<bar> \<le> 10000000 * 10000000" using s(6) s(6) by (rule abs_mult_le)
  have p53: "(2 :: real) ^ 53 = 9007199254740992" by simp
  have m1: "js_mul (Fin ?n) (Fin (sum_xy ?ps)) = Fin (?n * sum_xy ?ps)"
    using n(1) s(9) a1 by (simp add: rnd_int)
  have m2: "js_mul (Fin (sum_x ?ps)) (Fin (sum_y ?ps)) = Fin (sum_x ?ps * sum_y ?ps)"
    using s(5) s(7) a2 by (simp add: rnd_int)
  have m3: "js_mul (Fin ?n) (Fin (sum_xx ?ps)) = Fin (?n * sum_xx ?ps)"
    using n(1) s(11) a3 by (simp add: rnd_int)
  have m4: "js_mul (Fin (sum_x ?ps)) (Fin (sum_x ?ps)) = Fin (sum_x ?ps * sum_x ?ps)"
    using s(5) a4 by (simp add: rnd_int)
  have d1: "js_sub (Fin (?n * sum_xy ?ps)) (Fin (sum_x ?ps * sum_y ?ps)) =
            Fin (?n * sum_xy ?ps - sum_x ?ps * sum_y ?ps)"
  proof -
    have "?n * sum_xy ?ps - sum_x ?ps * sum_y ?ps \<in> \<int>" using n(1) s(5,7,9) by simp
    moreover have "\<bar>?n * sum_xy ?ps - sum_x ?ps * sum_y ?ps\<bar> < 2 ^ 53"
      using a1 a2 abs_triangle_ineq4 [of "?n * sum_xy ?ps" "sum_x ?ps * sum_y ?ps"]
      unfolding p53 by linarith
    ultimately show ?thesis by (simp add: js_sub_Fin rnd_int)
  qed
  have d2: "js_sub (Fin (?n * sum_xx ?ps)) (Fin (sum_x ?ps * sum_x ?ps)) = Fin (ols_den ?ps)"
  proof -
    have "?n * sum_xx ?ps - sum_x ?ps * sum_x ?ps \<in> \<int>" using n(1) s(5,11) by simp
    moreover have "\<bar>?n * sum_xx ?ps - sum_x ?ps * sum_x ?ps\<bar> < 2 ^ 53"
      using a3 a4 abs_triangle_ineq4 [of "?n * sum_xx ?ps" "sum_x ?ps * sum_x ?ps"]
      unfolding p53 by linarith
    ultimately show ?thesis by (simp add: js_sub_Fin rnd_int ols_den_def xy_points_length)
  qed
  show ?thesis
    unfolding fit_slope_def len s(1) s(2) s(3) s(4) m1 m2 m3 m4 d1 d2 ..
qed

lemma exact_slope:
  assumes "exact_points data" and "c \<in> \<int>" and "\<bar>c\<bar> \<le> 100"
    and "\<not> all_identical (map fst (xy_points c modRate cpm data))"
  shows "ols_den (xy_points c modRate cpm data) \<noteq> 0"
    and "fit_slope (js_points (Fin c) data) = rnd (ols_slope (xy_points c modRate cpm data))"
proof -
  show den: "ols_den (xy_points c modRate cpm data) \<noteq> 0"
    using assms(4) by (rule ols_den_nonzero)
  show "fit_slope (js_points (Fin c) data) = rnd (ols_slope (xy_points c modRate cpm data))"
    unfolding exact_numerator_denominator [OF assms(1-3)]
    using den by (simp add: ols_slope_def xy_points_length)
qed

lemma exact_intercept:
  assumes "exact_points data" and "c \<in> \<int>" and "\<bar>c\<bar> \<le> 100"
  shows "fit_intercept (js_points (Fin c) data) =
           js_div (js_sub (Fin (sum_y (xy_points c modRate cpm data)))
                          (js_mul (fit_slope (js_points (Fin c) data))
                                  (Fin (sum_x (xy_points c modRate cpm data)))))
                  (Fin (real (length data)))"
proof -
  have len: "length (js_points (Fin c) data) = length data" by (simp add: js_points_def)
  show ?thesis
    unfolding fit_intercept_def len exact_sums(1,2) [OF assms] ..
qed

lemma dsum_NaN:
  assumes "vs \<noteq> []" and "\<forall>v\<in>set vs. v = NaN"
  shows "dsum vs = NaN"
proof -
  have keep: "foldl js_add NaN ws = NaN" for ws
    by (induction ws) simp_all
  from assms obtain ws where "vs = NaN # ws" by (cases vs) auto
  then show ?thesis by (simp add: dsum_def js_add_NaN_right keep)
qed

lemma fit_NaN_slope:
  assumes "ps \<noteq> []" and "fit_slope ps = NaN"
  shows "fit_intercept ps = NaN" and "fit_r2 ps = NaN"
proof -
  show i: "fit_intercept ps = NaN"
    by (simp add: fit_intercept_def assms(2) js_sub_NaN_right)
  have "fit_ss_res ps = NaN"
    unfolding fit_ss_res_def assms(2) i
    using assms(1) by (intro dsum_NaN) (simp_all add: js_sub_NaN_right js_add_NaN_right)
  then show "fit_r2 ps = NaN"
    by (simp add: fit_r2_def js_sub_NaN_right)
qed

section \<open>Degenerate input\<close>

text \<open>
  C2, as stated, fails: \<open>calculateLinearRegression\<close> has no \<open>throw\<close>. For the empty point
  list and for the constant-x points \<open>(5,1), (5,3), (5,9)\<close> it returns a record whose slope,
  intercept and r2 are NaN.
\<close>

theorem degenerate_fit_is_nan:
  "regression_of [] = \<lparr>slope = NaN, intercept = NaN, r2 = NaN\<rparr> \<and>
   regression_of constant_x_points = \<lparr>slope = NaN, intercept = NaN, r2 = NaN\<rparr>"
  by (simp add: constant_x_points_def mk_point_def regression_unfold rnd_ints)

text \<open>
  C2, amended. On degenerate input the fit raises nothing and returns a record. Slope,
  intercept and r2 are all NaN for the empty point list, and for every non-empty point set
  whose x values are all identical and whose sums are computed without rounding (at most
  100 points, rate and cpm integers of magnitude at most 1000). Where the sums round, a
  constant-x point set can give other values: the rates 0.0007, 0.0007, 0.0007 with cpm
  1, 2, 3 give slope 0, intercept 2 and r2 0.
\<close>

theorem degenerate_fit_returns_nan:
  "regression_of [] = nan_fit \<and>
   (data \<noteq> [] \<and> exact_points data \<and> list_all (\<lambda>d. to_number (modRate d) = Fin a) data
      \<longrightarrow> regression_of data = nan_fit) \<and>
   regression_of tiny_rate_points = \<lparr>slope = Fin 0, intercept = Fin 2, r2 = Fin 0\<rparr>"
proof -
  have empty: "regression_of [] = nan_fit"
    by (simp add: regression_unfold nan_fit_def rnd_ints)
  have degenerate: "regression_of data = nan_fit"
    if ne: "data \<noteq> []" and ex: "exact_points data"
      and same: "list_all (\<lambda>d. to_number (modRate d) = Fin a) data"
  proof -
    let ?ps = "xy_points 100 modRate cpm data"
    let ?jp = "js_points (Fin 100) data"
    have c: "(100 :: real) \<in> \<int>" "\<bar>100 :: real\<bar> \<le> 100" by simp_all
    have "\<forall>p\<in>set ?ps. fst p = a * 100"
      using same by (auto simp: xy_points_def list_all_iff)
    then have cs: "sum_x ?ps = real (length ?ps) * (a * 100)"
      "sum_xx ?ps = real (length ?ps) * ((a * 100) * (a * 100))"
      "sum_xy ?ps = (a * 100) * sum_y ?ps"
      using constant_x_sums [of ?ps "a * 100"] by simp_all
    have num: "real (length data) * sum_xy ?ps - sum_x ?ps * sum_y ?ps = 0"
      by (simp add: cs xy_points_length)
    have den: "ols_den ?ps = 0"
      by (simp add: ols_den_def cs xy_points_length)
    have s: "fit_slope ?jp = NaN"
      unfolding exact_numerator_denominator [OF ex c] num den by simp
    have "?jp \<noteq> []" using ne by (simp add: js_points_def)
    from fit_NaN_slope [OF this s] s show ?thesis
      by (simp add: regression_of_def calculateLinearRegression_def regression_formulas nan_fit_def)
  qed
  have tiny: "regression_of tiny_rate_points = \<lparr>slope = Fin 0, intercept = Fin 2, r2 = Fin 0\<rparr>"
    by (simp add: tiny_rate_points_def mk_point_def regression_unfold rnd_eval)
  from empty degenerate tiny show ?thesis by blast
qed

theorem degenerate_fit_returns_nan_witness:
  "constant_x_points \<noteq> [] \<and> exact_points constant_x_points \<and>
   list_all (\<lambda>d. to_number (modRate d) = Fin 5) constant_x_points \<and>
   regression_of constant_x_points = nan_fit"
proof -
  have h: "constant_x_points \<noteq> [] \<and> exact_points constant_x_points \<and>
           list_all (\<lambda>d. to_number (modRate d) = Fin 5) constant_x_points"
    by (simp add: constant_x_points_def mk_point_def exact_points_def small_int_def)
  with degenerate_fit_returns_nan [of constant_x_points 5] show ?thesis by blast
qed

section \<open>The fit and the least-squares formulas\<close>

text \<open>
  C1, as stated, fails: the results are doubles, every operation rounded. For the rates 0.5
  and 0.500000001 with cpm 1 and 2 the scaled x values differ, the least-squares slope of
  the scaled points is \<open>35184372088832 / 3518437\<close>, yet the computed denominator is \<open>0\<close>
  and the fit returns slope Infinity, intercept -Infinity and r2 NaN.
\<close>

theorem fit_rounds_to_infinity:
  "scaled_xs near_points = [Fin 50, Fin (1759218607960037 / 35184372088832)] \<and>
   ols_slope [(50, 1), (1759218607960037 / 35184372088832, 2)] = 35184372088832 / 3518437 \<and>
   regression_of near_points = \<lparr>slope = PInf, intercept = NInf, r2 = NaN\<rparr>"
proof -
  have x: "js_mul (rnd (500000001 / 1000000000)) (Fin 100) = Fin (1759218607960037 / 35184372088832)"
          "js_mul (Fin (1 / 2)) (Fin 100) = Fin 50"
    by (simp_all add: rnd_eval)
  have xs: "scaled_xs near_points = [Fin 50, Fin (1759218607960037 / 35184372088832)]"
    by (simp add: scaled_xs_def near_points_def mk_point_def x rnd_ints)
  have ols: "ols_slope [(50, 1), (1759218607960037 / 35184372088832, 2)] = 35184372088832 / 3518437"
    by (simp add: ols_slope_def ols_den_def sum_x_def sum_y_def sum_xy_def sum_xx_def)
  have fit: "regression_of near_points = \<lparr>slope = PInf, intercept = NInf, r2 = NaN\<rparr>"
    by (simp add: near_points_def mk_point_def regression_unfold rnd_eval inf_of_def)
  from xs ols fit show ?thesis by simp
qed

text \<open>
  C1, amended. For every point set the fit is the least-squares formulas evaluated in
  double arithmetic, each rate first multiplied by 100: the sums are taken from left to
  right and every operation is rounded, in slope \<open>(n\<Sigma>xy - \<Sigma>x\<Sigma>y) / (n\<Sigma>x\<^sup>2 - (\<Sigma>x)\<^sup>2)\<close>,
  intercept \<open>(\<Sigma>y - slope * \<Sigma>x) / n\<close> and rSquared \<open>1 - SSres / SStot\<close>. For point sets whose
  sums are computed without rounding (at most 100 points, rate and cpm integers of
  magnitude at most 1000) and whose scaled x values are not all identical, the four sums
  are the exact sums, the denominator is not zero, the slope is the double nearest to the
  exact least-squares slope, and the intercept is \<open>(\<Sigma>y - slope * \<Sigma>x) / n\<close> over the exact
  sums with its three operations rounded.
\<close>

theorem fit_is_rounded_least_squares:
  "regression_of data =
     \<lparr>slope = fit_slope (js_points (Fin 100) data),
      intercept = fit_intercept (js_points (Fin 100) data),
      r2 = fit_r2 (js_points (Fin 100) data)\<rparr> \<and>
   (exact_points data \<and> \<not> all_identical (map fst (xy_points 100 modRate cpm data)) \<longrightarrow>
      dsum (map fst (js_points (Fin 100) data)) = Fin (sum_x (xy_points 100 modRate cpm data)) \<and>
      dsum (map snd (js_points (Fin 100) data)) = Fin (sum_y (xy_points 100 modRate cpm data)) \<and>
      dsum (map (\<lambda>p. js_mul (fst p) (snd p)) (js_points (Fin 100) data)) =
        Fin (sum_xy (xy_points 100 modRate cpm data)) \<and>
      dsum (map (\<lambda>p. js_mul (fst p) (fst p)) (js_points (Fin 100) data)) =
        Fin (sum_xx (xy_points 100 modRate cpm data)) \<and>
      ols_den (xy_points 100 modRate cpm data) \<noteq> 0 \<and>
      slope (regression_of data) = rnd (ols_slope (xy_points 100 modRate cpm data)) \<and>
      intercept (regression_of data) =
        js_div (js_sub (Fin (sum_y (xy_points 100 modRate cpm data)))
                       (js_mul (rnd (ols_slope (xy_points 100 modRate cpm data)))
                               (Fin (sum_x (xy_points 100 modRate cpm data)))))
               (Fin (real (length data))))"
proof -
  have formulas: "regression_of data =
     \<lparr>slope = fit_slope (js_points (Fin 100) data),
      intercept = fit_intercept (js_points (Fin 100) data),
      r2 = fit_r2 (js_points (Fin 100) data)\<rparr>"
    by (simp add: regression_of_def calculateLinearRegression_def regression_formulas)
  have c: "(100 :: real) \<in> \<int>" "\<bar>100 :: real\<bar> \<le> 100" by simp_all
  have "dsum (map fst (js_points (Fin 100) data)) = Fin (sum_x (xy_points 100 modRate cpm data)) \<and>
      dsum (map snd (js_points (Fin 100) data)) = Fin (sum_y (xy_points 100 modRate cpm data)) \<and>
      dsum (map (\<lambda>p. js_mul (fst p) (snd p)) (js_points (Fin 100) data)) =
        Fin (sum_xy (xy_points 100 modRate cpm data)) \<and>
      dsum (map (\<lambda>p. js_mul (fst p) (fst p)) (js_points (Fin 100) data)) =
        Fin (sum_xx (xy_points 100 modRate cpm data)) \<and>
      ols_den (xy_points 100 modRate cpm data) \<noteq> 0 \<and>
      slope (regression_of data) = rnd (ols_slope (xy_points 100 modRate cpm data)) \<and>
      intercept (regression_of data) =
        js_div (js_sub (Fin (sum_y (xy_points 100 modRate cpm data)))
                       (js_mul (rnd (ols_slope (xy_points 100 modRate cpm data)))
                               (Fin (sum_x (xy_points 100 modRate cpm data)))))
               (Fin (real (length data)))"
    if ex: "exact_points data"
      and ni: "\<not> all_identical (map fst (xy_points 100 modRate cpm data))"
  proof -
    note s = exact_sums [OF ex c]
    note sl = exact_slope [OF ex c ni]
    have "intercept (regression_of data) = fit_intercept (js_points (Fin 100) data)"
      by (simp add: formulas)
    also have "\<dots> = js_div (js_sub (Fin (sum_y (xy_points 100 modRate cpm data)))
                       (js_mul (rnd (ols_slope (xy_points 100 modRate cpm data)))
                               (Fin (sum_x (xy_points 100 modRate cpm data)))))
               (Fin (real (length data)))"
      unfolding exact_intercept [OF ex c] sl(2) ..
    finally have ic: "intercept (regression_of data) =
        js_div (js_sub (Fin (sum_y (xy_points 100 modRate cpm data)))
                       (js_mul (rnd (ols_slope (xy_points 100 modRate cpm data)))
                               (Fin (sum_x (xy_points 100 modRate cpm data)))))
               (Fin (real (length data)))" .
    have "slope (regression_of data) = rnd (ols_slope (xy_points 100 modRate cpm data))"
      by (simp add: formulas sl(2))
    with s(1-4) sl(1) ic show ?thesis by blast
  qed
  with formulas show ?thesis by blast
qed

theorem fit_is_rounded_least_squares_witness:
  "exact_points spread_points \<and>
   \<not> all_identical (map fst (xy_points 100 modRate cpm spread_points)) \<and>
   xy_points 100 modRate cpm spread_points = [(0, 1), (100, 3), (200, 2)] \<and>
   ols_slope [(0, 1), (100, 3), (200, 2)] = 1 / 200 \<and>
   slope (regression_of spread_points) = rnd (1 / 200) \<and>
   rnd (1 / 200) = Fin (5764607523034235 / 1152921504606846976) \<and>
   intercept (regression_of spread_points) = Fin (3 / 2)"
proof -
  have ps: "xy_points 100 modRate cpm spread_points = [(0, 1), (100, 3), (200, 2)]"
    by (simp add: xy_points_def spread_points_def mk_point_def)
  have ex: "exact_points spread_points"
    by (simp add: exact_points_def small_int_def spread_points_def mk_point_def)
  have ni: "\<not> all_identical (map fst (xy_points 100 modRate cpm spread_points))"
    by (simp add: ps all_identical_def)
  have sl: "ols_slope [(0, 1), (100, 3), (200, 2)] = 1 / 200"
    by (simp add: ols_slope_def ols_den_def sum_x_def sum_y_def sum_xy_def sum_xx_def)
  have r: "rnd (1 / 200) = Fin (5764607523034235 / 1152921504606846976)"
    by (simp add: rnd_eval)
  have sums: "sum_y [(0, 1), (100, 3), (200, 2 :: real)] = 6"
    "sum_x [(0, 1 :: real), (100, 3), (200, 2)] = 300"
    by (simp_all add: sum_x_def sum_y_def)
  have len: "real (length spread_points) = 3" by (simp add: spread_points_def)
  from fit_is_rounded_least_squares [of spread_points] ex ni
  have "slope (regression_of spread_points) =
          rnd (ols_slope (xy_points 100 modRate cpm spread_points)) \<and>
        intercept (regression_of spread_points) =
          js_div (js_sub (Fin (sum_y (xy_points 100 modRate cpm spread_points)))
                         (js_mul (rnd (ols_slope (xy_points 100 modRate cpm spread_points)))
                                 (Fin (sum_x (xy_points 100 modRate cpm spread_points)))))
                 (Fin (real (length spread_points)))"
    by blast
  then have "slope (regression_of spread_points) = rnd (1 / 200) \<and>
        intercept (regression_of spread_points) =
          js_div (js_sub (Fin 6) (js_mul (rnd (1 / 200)) (Fin 300))) (Fin 3)"
    by (simp only: ps sl sums len)
  moreover have "js_div (js_sub (Fin 6) (js_mul (rnd (1 / 200)) (Fin 300))) (Fin 3) = Fin (3 / 2)"
    unfolding r by (simp add: js_sub_def rnd_eval)
  ultimately show ?thesis using ex ni ps sl r by simp
qed

section \<open>Scaling of the rate\<close>




section \<open>Regression line\<close>

lemma js_le_refl: "a \<noteq> NaN \<Longrightarrow> js_le a a"
  by (cases a) (simp_all add: js_le_def)

lemma js_le_trans: "js_le a b \<Longrightarrow> js_le b c \<Longrightarrow> js_le a c"
  by (cases a; cases b; cases c) (simp_all add: js_le_def)

lemma js_lt_imp_le: "js_lt a b \<Longrightarrow> js_le a b"
  by (cases a; cases b) (simp_all add: js_le_def)

lemma not_js_lt_imp_le: "a \<noteq> NaN \<Longrightarrow> b \<noteq> NaN \<Longrightarrow> \<not> js_lt a b \<Longrightarrow> js_le b a"
  by (simp add: js_le_def)

lemma js_le_PInf: "js_le PInf v \<Longrightarrow> v = PInf"
  by (cases v) (simp_all add: js_le_def)

lemma js_le_NInf: "js_le v NInf \<Longrightarrow> v = NInf"
  by (cases v) (simp_all add: js_le_def)

lemma math_min_from_least:
  assumes "NaN \<notin> set vs" and "lowest \<noteq> NaN"
  shows "(math_min_from lowest vs = lowest \<or> math_min_from lowest vs \<in> set vs) \<and>
         js_le (math_min_from lowest vs) lowest \<and>
         (\<forall>v\<in>set vs. js_le (math_min_from lowest vs) v)"
  using assms
proof (induction vs arbitrary: lowest)
  case Nil
  then show ?case by (simp add: js_le_refl)
next
  case (Cons v vs)
  let ?l = "if js_lt v lowest then v else lowest"
  let ?r = "math_min_from ?l vs"
  from Cons.prems have v: "v \<noteq> NaN" and vs: "NaN \<notin> set vs" by auto
  have l: "?l \<noteq> NaN" using v Cons.prems(2) by simp
  have run: "math_min_from lowest (v # vs) = ?r" using v by simp
  from Cons.IH [OF vs l]
  have mem: "?r = ?l \<or> ?r \<in> set vs" and le: "js_le ?r ?l" and all: "\<forall>w\<in>set vs. js_le ?r w"
    by blast+
  have l_low: "js_le ?l lowest"
    using Cons.prems(2) by (simp add: js_lt_imp_le js_le_refl)
  have l_v: "js_le ?l v"
    using v Cons.prems(2) by (simp add: js_le_refl not_js_lt_imp_le)
  have "?r = lowest \<or> ?r \<in> set (v # vs)" using mem by auto
  moreover have "js_le ?r lowest" using le l_low by (rule js_le_trans)
  moreover have "js_le ?r v" using le l_v by (rule js_le_trans)
  ultimately show ?case unfolding run using all by simp
qed

lemma math_max_from_greatest:
  assumes "NaN \<notin> set vs" and "highest \<noteq> NaN"
  shows "(math_max_from highest vs = highest \<or> math_max_from highest vs \<in> set vs) \<and>
         js_le highest (math_max_from highest vs) \<and>
         (\<forall>v\<in>set vs. js_le v (math_max_from highest vs))"
  using assms
proof (induction vs arbitrary: highest)
  case Nil
  then show ?case by (simp add: js_le_refl)
next
  case (Cons v vs)
  let ?h = "if js_lt highest v then v else highest"
  let ?r = "math_max_from ?h vs"
  from Cons.prems have v: "v \<noteq> NaN" and vs: "NaN \<notin> set vs" by auto
  have h: "?h \<noteq> NaN" using v Cons.prems(2) by simp
  have run: "math_max_from highest (v # vs) = ?r" using v by simp
  from Cons.IH [OF vs h]
  have mem: "?r = ?h \<or> ?r \<in> set vs" and le: "js_le ?h ?r" and all: "\<forall>w\<in>set vs. js_le w ?r"
    by blast+
  have h_high: "js_le highest ?h"
    using Cons.prems(2) by (simp add: js_lt_imp_le js_le_refl)
  have h_v: "js_le v ?h"
    using v Cons.prems(2) by (simp add: js_le_refl not_js_lt_imp_le)
  have "?r = highest \<or> ?r \<in> set (v # vs)" using mem by auto
  moreover have "js_le highest ?r" using h_high le by (rule js_le_trans)
  moreover have "js_le v ?r" using h_v le by (rule js_le_trans)
  ultimately show ?case unfolding run using all by simp
qed

lemma math_min_is_minimum:
  assumes "vs \<noteq> []" and "NaN \<notin> set vs"
  shows "math_min vs \<in> set vs \<and> (\<forall>v\<in>set vs. js_le (math_min vs) v)"
proof -
  from math_min_from_least [OF assms(2), of PInf]
  have mem: "math_min vs = PInf \<or> math_min vs \<in> set vs"
    and all: "\<forall>v\<in>set vs. js_le (math_min vs) v"
    by (simp_all add: math_min_def)
  have "math_min vs \<in> set vs"
  proof (cases "math_min vs \<in> set vs")
    case True
    then show ?thesis .
  next
    case False
    with mem have inf: "math_min vs = PInf" by simp
    have "hd vs \<in> set vs" using assms(1) by simp
    with all inf have "js_le PInf (hd vs)" by metis
    then have "hd vs = PInf" by (rule js_le_PInf)
    with \<open>hd vs \<in> set vs\<close> inf show ?thesis by simp
  qed
  with all show ?thesis by simp
qed

lemma math_max_is_maximum:
  assumes "vs \<noteq> []" and "NaN \<notin> set vs"
  shows "math_max vs \<in> set vs \<and> (\<forall>v\<in>set vs. js_le v (math_max vs))"
proof -
  from math_max_from_greatest [OF assms(2), of NInf]
  have mem: "math_max vs = NInf \<or> math_max vs \<in> set vs"
    and all: "\<forall>v\<in>set vs. js_le v (math_max vs)"
    by (simp_all add: math_max_def)
  have "math_max vs \<in> set vs"
  proof (cases "math_max vs \<in> set vs")
    case True
    then show ?thesis .
  next
    case False
    with mem have inf: "math_max vs = NInf" by simp
    have "hd vs \<in> set vs" using assms(1) by simp
    with all inf have "js_le (hd vs) NInf" by metis
    then have "hd vs = NInf" by (rule js_le_NInf)
    with \<open>hd vs \<in> set vs\<close> inf show ?thesis by simp
  qed
  with all show ?thesis by simp
qed

lemma projected_rate_not_NaN: "js_mul (to_number (js_or v (Num (Fin 0)))) (Fin 100) \<noteq> NaN"
  by (cases v rule: truthy.cases) (simp_all add: js_or_def inf_of_def rnd_not_NaN)

lemma scaled_xs_scatterData_no_NaN: "NaN \<notin> set (scaled_xs (scatterData ds r m))"
proof
  assume "NaN \<in> set (scaled_xs (scatterData ds r m))"
  then obtain v where "NaN = js_mul (to_number (js_or v (Num (Fin 0)))) (Fin 100)"
    by (auto simp: scaled_xs_def scatterData_def)
  then have "js_mul (to_number (js_or v (Num (Fin 0)))) (Fin 100) = NaN"
    by (rule sym)
  then show False by (simp add: projected_rate_not_NaN)
qed

text \<open>
  C7. For every non-empty dataset, the projected point set and any fitted coefficients,
  \<open>regressionLine\<close> returns exactly two points. Their x coordinates are the minimum and the
  maximum of the scaled x values (\<open>modRate * 100\<close>) of that point set, which are the x
  values the fit sums over, and each y coordinate is \<open>slope * x + intercept\<close> at its x.
\<close>

theorem line_endpoints_are_extrema:
  assumes "ds \<noteq> []"
  shows "length (regressionLine (scatterData ds r m) reg) = 2 \<and>
         px (regressionLine (scatterData ds r m) reg ! 0) \<in> set (scaled_xs (scatterData ds r m)) \<and>
         px (regressionLine (scatterData ds r m) reg ! 1) \<in> set (scaled_xs (scatterData ds r m)) \<and>
         (\<forall>v\<in>set (scaled_xs (scatterData ds r m)).
            js_le (px (regressionLine (scatterData ds r m) reg ! 0)) v \<and>
            js_le v (px (regressionLine (scatterData ds r m) reg ! 1))) \<and>
         py (regressionLine (scatterData ds r m) reg ! 0) =
           js_add (js_mul (slope reg) (px (regressionLine (scatterData ds r m) reg ! 0))) (intercept reg) \<and>
         py (regressionLine (scatterData ds r m) reg ! 1) =
           js_add (js_mul (slope reg) (px (regressionLine (scatterData ds r m) reg ! 1))) (intercept reg) \<and>
         scaled_xs (scatterData ds r m) = map fst (js_points (Fin 100) (scatterData ds r m))"
proof -
  let ?vs = "scaled_xs (scatterData ds r m)"
  have ne: "?vs \<noteq> []" using assms by (simp add: scaled_xs_def scatterData_def)
  have nn: "NaN \<notin> set ?vs" by (rule scaled_xs_scatterData_no_NaN)
  have same: "?vs = map fst (js_points (Fin 100) (scatterData ds r m))"
    by (simp add: scaled_xs_def js_points_def comp_def)
  from math_min_is_minimum [OF ne nn] math_max_is_maximum [OF ne nn] same
  show ?thesis by (simp add: regressionLine_def Let_def)
qed

theorem line_endpoints_are_extrema_witness:
  "scenario \<noteq> [] \<and>
   scaled_xs (scatterData scenario ''utr5'' ''ai'') = [Fin 10, Fin 20, Fin 30] \<and>
   regressionLine (scatterData scenario ''utr5'' ''ai'') \<lparr>slope = Fin 1, intercept = Fin 0, r2 = Fin 1\<rparr> =
     [\<lparr>px = Fin 10, py = Fin 10\<rparr>, \<lparr>px = Fin 30, py = Fin 30\<rparr>] \<and>
   js_le (px (regressionLine (scatterData scenario ''utr5'' ''ai'')
                \<lparr>slope = Fin 1, intercept = Fin 0, r2 = Fin 1\<rparr> ! 0)) (Fin 20)"
proof -
  have ne: "scenario \<noteq> []" by (simp add: scenario_def)
  have xs: "scaled_xs (scatterData scenario ''utr5'' ''ai'') = [Fin 10, Fin 20, Fin 30]"
    by (simp add: scaled_xs_def scenario_points scenario_rates)
  have line: "regressionLine (scatterData scenario ''utr5'' ''ai'')
                \<lparr>slope = Fin 1, intercept = Fin 0, r2 = Fin 1\<rparr> =
              [\<lparr>px = Fin 10, py = Fin 10\<rparr>, \<lparr>px = Fin 30, py = Fin 30\<rparr>]"
    by (simp add: regressionLine_def xs math_min_def math_max_def Let_def rnd_ints)
  from line_endpoints_are_extrema [OF ne, of "''utr5''" "''ai''"
      "\<lparr>slope = Fin 1, intercept = Fin 0, r2 = Fin 1\<rparr>"]
  have "js_le (px (regressionLine (scatterData scenario ''utr5'' ''ai'')
                \<lparr>slope = Fin 1, intercept = Fin 0, r2 = Fin 1\<rparr> ! 0)) (Fin 20)"
    by (simp add: xs)
  with ne xs line show ?thesis by blast
qed

section \<open>Filter\<close>

lemma take_eq_iff_prefix: "take (length t) s = t \<longleftrightarrow> (\<exists>post. s = t @ post)"
proof
  assume "take (length t) s = t"
  then have "s = t @ drop (length t) s" by (metis append_take_drop_id)
  then show "\<exists>post. s = t @ post" ..
next
  assume "\<exists>post. s = t @ post"
  then obtain post where "s = t @ post" ..
  then show "take (length t) s = t" by simp
qed

lemma occurs_Cons:
  "(\<exists>pre post. c # s = pre @ t @ post) \<longleftrightarrow>
   (\<exists>post. c # s = t @ post) \<or> (\<exists>pre post. s = pre @ t @ post)"
proof
  assume "\<exists>pre post. c # s = pre @ t @ post"
  then obtain pre post where e: "c # s = pre @ t @ post" by blast
  show "(\<exists>post. c # s = t @ post) \<or> (\<exists>pre post. s = pre @ t @ post)"
  proof (cases pre)
    case Nil
    with e have "c # s = t @ post" by simp
    then show ?thesis by blast
  next
    case (Cons a pre')
    with e have "s = pre' @ t @ post" by simp
    then show ?thesis by blast
  qed
next
  assume "(\<exists>post. c # s = t @ post) \<or> (\<exists>pre post. s = pre @ t @ post)"
  then show "\<exists>pre post. c # s = pre @ t @ post"
  proof
    assume "\<exists>post. c # s = t @ post"
    then obtain post where "c # s = [] @ t @ post" by auto
    then show ?thesis by blast
  next
    assume "\<exists>pre post. s = pre @ t @ post"
    then obtain pre post where "s = pre @ t @ post" by blast
    then have "c # s = (c # pre) @ t @ post" by simp
    then show ?thesis by blast
  qed
qed

lemma str_includes_iff: "str_includes s t \<longleftrightarrow> (\<exists>pre post. s = pre @ t @ post)"
proof (induction s)
  case Nil
  show ?case by simp
next
  case (Cons c s)
  have "str_includes (c # s) t \<longleftrightarrow> take (length t) (c # s) = t \<or> str_includes s t"
    by simp
  also have "\<dots> \<longleftrightarrow> (\<exists>post. c # s = t @ post) \<or> (\<exists>pre post. s = pre @ t @ post)"
    unfolding Cons.IH take_eq_iff_prefix ..
  also have "\<dots> \<longleftrightarrow> (\<exists>pre post. c # s = pre @ t @ post)"
    by (rule occurs_Cons [symmetric])
  finally show ?case .
qed


lemma case_pairs_facts:
  "distinct (map fst case_pairs)"
  "distinct (map snd case_pairs)"
  "set (map fst case_pairs) \<inter> set (map snd case_pairs) = {}"
  by (simp_all add: case_pairs_def upper_letters_def lower_letters_def)

lemma lower_char_pair: "(c, d) \<in> set case_pairs \<Longrightarrow> lower_char c = d \<and> lower_char d = d"
proof -
  assume in_pairs: "(c, d) \<in> set case_pairs"
  then have "map_of case_pairs c = Some d"
    using case_pairs_facts(1) by simp
  moreover have "d \<in> set (map snd case_pairs)" using in_pairs by force
  then have "d \<notin> set (map fst case_pairs)" using case_pairs_facts(3) by blast
  then have "map_of case_pairs d = None" by (simp add: map_of_eq_None_iff)
  ultimately show ?thesis by (simp add: lower_char_def)
qed

lemma lower_char_cases:
  "(lower_char c = c \<and> map_of case_pairs c = None) \<or> (c, lower_char c) \<in> set case_pairs"
proof (cases "map_of case_pairs c")
  case None
  then show ?thesis by (simp add: lower_char_def)
next
  case (Some d)
  then have "(c, d) \<in> set case_pairs" by (rule map_of_SomeD)
  with Some show ?thesis by (simp add: lower_char_def)
qed

lemma lower_char_eq_iff: "lower_char c = lower_char d \<longleftrightarrow> same_ci c d"
proof
  assume eq: "lower_char c = lower_char d"
  from lower_char_cases [of c] lower_char_cases [of d]
  consider "lower_char c = c" "lower_char d = d"
    | "lower_char c = c" "(d, lower_char d) \<in> set case_pairs"
    | "(c, lower_char c) \<in> set case_pairs" "lower_char d = d"
    | "(c, lower_char c) \<in> set case_pairs" "(d, lower_char d) \<in> set case_pairs"
    by blast
  then show "same_ci c d"
  proof cases
    case 1
    with eq show ?thesis by (simp add: same_ci_def)
  next
    case 2
    with eq show ?thesis by (simp add: same_ci_def)
  next
    case 3
    with eq show ?thesis by (simp add: same_ci_def)
  next
    case 4
    have "inj_on snd (set case_pairs)"
      using case_pairs_facts(2) by (simp add: distinct_map)
    moreover have "snd (c, lower_char c) = snd (d, lower_char d)"
      using eq by simp
    ultimately have "(c, lower_char c) = (d, lower_char d)"
      using 4 by (rule inj_onD)
    then show ?thesis by (simp add: same_ci_def)
  qed
next
  assume "same_ci c d"
  then consider "c = d" | "(c, d) \<in> set case_pairs" | "(d, c) \<in> set case_pairs"
    unfolding same_ci_def by blast
  then show "lower_char c = lower_char d"
    by cases (auto dest: lower_char_pair)
qed

lemma equal_ci_iff: "equal_ci s t \<longleftrightarrow> toLowerCase s = toLowerCase t"
proof -
  have "list_all2 same_ci s t \<longleftrightarrow> list_all2 (=) (map lower_char s) (map lower_char t)"
    by (simp add: list_all2_map1 list_all2_map2 lower_char_eq_iff)
  then show ?thesis by (simp add: equal_ci_def toLowerCase_def list_all2_eq)
qed

lemma toLowerCase_append: "toLowerCase (a @ b) = toLowerCase a @ toLowerCase b"
  by (simp add: toLowerCase_def)

lemma toLowerCase_split:
  assumes "toLowerCase s = a @ b"
  shows "\<exists>u v. s = u @ v \<and> toLowerCase u = a \<and> toLowerCase v = b"
proof -
  let ?u = "take (length a) s" and ?v = "drop (length a) s"
  have "s = ?u @ ?v" by simp
  moreover have "toLowerCase ?u = a"
    using assms by (metis append_eq_conv_conj take_map toLowerCase_def)
  moreover have "toLowerCase ?v = b"
    using assms by (metis append_eq_conv_conj drop_map toLowerCase_def)
  ultimately show ?thesis by blast
qed

lemma contains_ci_iff: "contains_ci s t \<longleftrightarrow> str_includes (toLowerCase s) (toLowerCase t)"
proof
  assume "contains_ci s t"
  then obtain pre mid post where "s = pre @ mid @ post" "toLowerCase mid = toLowerCase t"
    unfolding contains_ci_def equal_ci_iff by blast
  then have "toLowerCase s = toLowerCase pre @ toLowerCase t @ toLowerCase post"
    by (simp add: toLowerCase_append)
  then show "str_includes (toLowerCase s) (toLowerCase t)"
    unfolding str_includes_iff by blast
next
  assume "str_includes (toLowerCase s) (toLowerCase t)"
  then obtain pre' post' where "toLowerCase s = pre' @ (toLowerCase t @ post')"
    unfolding str_includes_iff by blast
  then obtain pre rest where s: "s = pre @ rest" and "toLowerCase rest = toLowerCase t @ post'"
    using toLowerCase_split by blast
  then obtain mid post where "rest = mid @ post" "toLowerCase mid = toLowerCase t"
    using toLowerCase_split by blast
  with s have "s = pre @ mid @ post \<and> toLowerCase mid = toLowerCase t" by simp
  then show "contains_ci s t"
    unfolding contains_ci_def equal_ci_iff by blast
qed


lemma filter_js_total:
  "\<forall>g\<in>set ds. p g = Inr (q g) \<Longrightarrow> filter_js p ds = Inr (filter q ds)"
  by (induction ds) simp_all

lemma filter_js_throws:
  "\<exists>g\<in>set ds. p g = Inl TypeError \<Longrightarrow> filter_js p ds = Inl TypeError"
proof (induction ds)
  case Nil
  then show ?case by simp
next
  case (Cons g gs)
  have one: "e = TypeError" for e :: js_error by (cases e) simp
  show ?case
  proof (cases "p g")
    case (Inl e)
    then show ?thesis using one [of e] by simp
  next
    case (Inr b)
    with Cons.prems have "\<exists>g\<in>set gs. p g = Inl TypeError" by auto
    then have "filter_js p gs = Inl TypeError" by (rule Cons.IH)
    with Inr show ?thesis by simp
  qed
qed

lemma str_includes_empty: "str_includes [] t \<longleftrightarrow> t = []"
  by simp

lemma gene_matches_safe:
  assumes "is_str (name g)" and "is_str (chromosome g) \<or> \<not> truthy_val (chromosome g)"
    and "t \<noteq> []"
  shows "gene_matches t g = Inr (matches_spec t g)"
proof -
  from assms(1) obtain n where n: "name g = Str n" by (cases "name g") simp_all
  from assms(3) have t: "toLowerCase t \<noteq> []" by (simp add: toLowerCase_def)
  show ?thesis
  proof (cases "chromosome g")
    case (Prim v)
    with assms(2) have "\<not> truthy v" by simp
    with n Prim show ?thesis
      by (simp add: gene_matches_def lower_of_def matches_spec_def contains_ci_iff)
  next
    case (Str c)
    show ?thesis
    proof (cases "c = []")
      case True
      with n Str t show ?thesis
        by (simp add: gene_matches_def lower_of_def matches_spec_def contains_ci_iff
            toLowerCase_def)
    next
      case False
      with n Str show ?thesis
        by (simp add: gene_matches_def lower_of_def matches_spec_def contains_ci_iff)
    qed
  qed
qed

lemma gene_matches_bad_name: "\<not> is_str (name g) \<Longrightarrow> gene_matches t g = Inl TypeError"
  by (cases "name g") (simp_all add: gene_matches_def lower_of_def)

text \<open>
  C4, as stated, fails: the filter does not return the matching records of every dataset.
  With the record \<open>BRCA1\<close> followed by a record that has no name, the term \<open>brca\<close> makes
  the call throw instead of returning the first record.
\<close>

theorem filter_throws_on_missing_name:
  "name brca = Str ''BRCA1'' \<and> name nameless = Prim Undefined \<and>
   filteredGenes [brca, nameless] ''brca'' = Inl TypeError"
  by (simp add: filteredGenes_def gene_matches_def lower_of_def brca_def nameless_def)

text \<open>
  C4, amended. With the empty term \<open>filteredGenes\<close> returns the dataset unchanged, for every
  dataset. With a non-empty term, on every dataset whose records have a string name and a
  chromosome that is a string or falsy, it returns exactly the records whose name, or
  chromosome when it is a string, contains the term as a substring under a case-insensitive
  comparison, in dataset order.
\<close>

theorem filter_matches_spec:
  "filteredGenes ds [] = Inr ds \<and>
   (t \<noteq> [] \<and> list_all string_fields ds \<longrightarrow>
      filteredGenes ds t = Inr (filter (matches_spec t) ds))"
proof -
  have "filteredGenes ds t = Inr (filter (matches_spec t) ds)"
    if t: "t \<noteq> []" and ds: "list_all string_fields ds"
  proof -
    have "\<forall>g\<in>set ds. gene_matches t g = Inr (matches_spec t g)"
    proof
      fix g assume "g \<in> set ds"
      with ds have "string_fields g" by (simp add: list_all_iff)
      then have "is_str (name g)" "is_str (chromosome g) \<or> \<not> truthy_val (chromosome g)"
        by (simp_all add: string_fields_def)
      then show "gene_matches t g = Inr (matches_spec t g)"
        using t by (rule gene_matches_safe)
    qed
    then have "filter_js (gene_matches t) ds = Inr (filter (matches_spec t) ds)"
      by (rule filter_js_total)
    with t show ?thesis by (simp add: filteredGenes_def)
  qed
  then show ?thesis by (simp add: filteredGenes_def)
qed

theorem filter_matches_spec_witness:
  "filteredGenes [brca, tp53] [] = Inr [brca, tp53] \<and>
   ''brCA'' \<noteq> [] \<and> list_all string_fields [brca, tp53] \<and>
   filteredGenes [brca, tp53] ''brCA'' = Inr (filter (matches_spec ''brCA'') [brca, tp53]) \<and>
   filteredGenes [brca, tp53] ''brCA'' = Inr [brca] \<and>
   filteredGenes [brca, tp53] ''CHR17'' = Inr [brca] \<and>
   filteredGenes [brca, tp53] ''p5'' = Inr [tp53] \<and>
   filteredGenes [brca, umlaut_gene] [CHR 0xE4] = Inr [umlaut_gene]"
proof -
  have typed: "list_all string_fields [brca, tp53]"
    by (simp add: string_fields_def brca_def tp53_def)
  have run: "filteredGenes [brca, tp53] ''brCA'' = Inr [brca]"
            "filteredGenes [brca, tp53] ''CHR17'' = Inr [brca]"
            "filteredGenes [brca, tp53] ''p5'' = Inr [tp53]"
            "filteredGenes [brca, umlaut_gene] [CHR 0xE4] = Inr [umlaut_gene]"
     by (simp_all add: filteredGenes_def gene_matches_def lower_of_def brca_def tp53_def
         umlaut_gene_def) code_simp+
  from filter_matches_spec [of "[brca, tp53]" "''brCA''"] typed run show ?thesis
    by simp
qed

text \<open>
  C10, as stated, fails: a record with a string name whose chromosome is the number \<open>7\<close>
  makes the filter throw, since \<open>gene.chromosome && gene.chromosome.toLowerCase()\<close> guards
  against a falsy chromosome only.
\<close>

theorem filter_throws_on_numeric_chromosome:
  "name numeric_chromosome = Str ''BRCA1'' \<and>
   filteredGenes [numeric_chromosome] ''chr'' = Inl TypeError"
  by (simp add: filteredGenes_def gene_matches_def lower_of_def numeric_chromosome_def) code_simp

text \<open>
  C10, amended. For every dataset in which each record's name is a string and each
  record's chromosome is a string or falsy (absent, \<open>null\<close>, \<open>false\<close>, \<open>0\<close>, NaN, \<open>""\<close>),
  \<open>filteredGenes\<close> never throws, for any term. The name is read unconditionally when the
  term is non-empty: a record whose name is not a string then makes the call throw a
  TypeError, while the empty term returns the dataset without reading any record.
\<close>

theorem filter_total_on_strings:
  "(list_all (\<lambda>g. is_str (name g) \<and> (is_str (chromosome g) \<or> \<not> truthy_val (chromosome g))) ds
      \<longrightarrow> (\<exists>r. filteredGenes ds t = Inr r)) \<and>
   (t \<noteq> [] \<and> list_ex (\<lambda>g. \<not> is_str (name g)) ds \<longrightarrow> filteredGenes ds t = Inl TypeError) \<and>
   filteredGenes ds [] = Inr ds"
proof (intro conjI impI)
  assume safe: "list_all (\<lambda>g. is_str (name g) \<and>
                              (is_str (chromosome g) \<or> \<not> truthy_val (chromosome g))) ds"
  show "\<exists>r. filteredGenes ds t = Inr r"
  proof (cases "t = []")
    case True
    then show ?thesis by (simp add: filteredGenes_def)
  next
    case False
    have "\<forall>g\<in>set ds. gene_matches t g = Inr (matches_spec t g)"
      using safe False by (simp add: list_all_iff gene_matches_safe)
    then have "filter_js (gene_matches t) ds = Inr (filter (matches_spec t) ds)"
      by (rule filter_js_total)
    with False show ?thesis by (simp add: filteredGenes_def)
  qed
next
  assume "t \<noteq> [] \<and> list_ex (\<lambda>g. \<not> is_str (name g)) ds"
  then have t: "t \<noteq> []" and "\<exists>g\<in>set ds. \<not> is_str (name g)"
    by (simp_all add: list_ex_iff)
  then have "\<exists>g\<in>set ds. gene_matches t g = Inl TypeError"
    using gene_matches_bad_name by blast
  then have "filter_js (gene_matches t) ds = Inl TypeError"
    by (rule filter_js_throws)
  with t show "filteredGenes ds t = Inl TypeError" by (simp add: filteredGenes_def)
next
  show "filteredGenes ds [] = Inr ds" by (simp add: filteredGenes_def)
qed

theorem filter_total_on_strings_witness:
  "list_all (\<lambda>g. is_str (name g) \<and> (is_str (chromosome g) \<or> \<not> truthy_val (chromosome g)))
     [brca, tp53] \<and>
   (\<exists>r. filteredGenes [brca, tp53] ''tp'' = Inr r) \<and>
   ''tp'' \<noteq> [] \<and> list_ex (\<lambda>g. \<not> is_str (name g)) [brca, nameless] \<and>
   filteredGenes [brca, nameless] ''tp'' = Inl TypeError \<and>
   filteredGenes [brca, nameless] [] = Inr [brca, nameless]"
proof -
  have safe: "list_all (\<lambda>g. is_str (name g) \<and>
                (is_str (chromosome g) \<or> \<not> truthy_val (chromosome g))) [brca, tp53]"
    by (simp add: brca_def tp53_def)
  have bad: "''tp'' \<noteq> [] \<and> list_ex (\<lambda>g. \<not> is_str (name g)) [brca, nameless]"
    by (simp add: brca_def nameless_def)
  from filter_total_on_strings [of "[brca, tp53]" "''tp''"] safe
  have a: "\<exists>r. filteredGenes [brca, tp53] ''tp'' = Inr r" by blast
  from filter_total_on_strings [of "[brca, nameless]" "''tp''"] bad
  have b: "filteredGenes [brca, nameless] ''tp'' = Inl TypeError"
    and c: "filteredGenes [brca, nameless] [] = Inr [brca, nameless]" by blast+
  from safe bad a b c show ?thesis by blast
qed


section \<open>Loading\<close>

text \<open>
  C8, as stated, fails: a dataset with an entry that has neither \<open>id\<close> nor \<open>name\<close> is
  loaded without a load failure, becomes the active dataset and is projected.
\<close>

theorem load_keeps_invalid_entry:
  "loadError (loadData \<lparr>fetch_MR01_1 = ok_response [nameless], fetch_MR01_2 = ok_response []\<rparr>
                initial_state) = None \<and>
   geneData (loadData \<lparr>fetch_MR01_1 = ok_response [nameless], fetch_MR01_2 = ok_response []\<rparr>
                initial_state) = [nameless] \<and>
   name nameless = Prim Undefined \<and> ident nameless = Prim Undefined \<and>
   scatterData (geneData (loadData \<lparr>fetch_MR01_1 = ok_response [nameless],
                                   fetch_MR01_2 = ok_response []\<rparr> initial_state)) ''utr5'' ''ai'' =
     [\<lparr>pname = Prim Undefined, modRate = Num (Fin (1 / 2)), cpm = Num (Fin 0),
       pid = Prim Undefined\<rparr>]"
  by (simp add: loadData_def load_one_def ok_response_def initial_state_def geneData_def
      nameless_def no_fields_def scatterData_def rateKey_def cpmKey_def js_or_def)

text \<open>
  C8, amended. \<open>loadData\<close> does not look at the entries: when both responses are ok and
  their bodies parse, the two datasets are stored as parsed and no load failure is
  reported. A load failure is reported for a rejected fetch, a response that is not ok or
  a body that does not parse.
\<close>

theorem load_stores_parsed_data:
  "loadData \<lparr>fetch_MR01_1 = ok_response d1, fetch_MR01_2 = ok_response d2\<rparr> s =
     s\<lparr>geneDataMR01_1 := d1, geneDataMR01_2 := d2, isLoading := False\<rparr> \<and>
   loadData \<lparr>fetch_MR01_1 = Inr \<lparr>ok = False, json = body\<rparr>, fetch_MR01_2 = f2\<rparr> s =
     s\<lparr>isLoading := False, loadError := Some ''Failed to load MR01_1 data''\<rparr> \<and>
   loadData \<lparr>fetch_MR01_1 = Inr \<lparr>ok = True, json = Inl msg\<rparr>, fetch_MR01_2 = f2\<rparr> s =
     s\<lparr>isLoading := False, loadError := Some msg\<rparr> \<and>
   loadData \<lparr>fetch_MR01_1 = Inl msg, fetch_MR01_2 = f2\<rparr> s =
     s\<lparr>isLoading := False, loadError := Some msg\<rparr>"
  by (simp add: loadData_def load_one_def ok_response_def)

end
